theory Spec2Isabelle
  imports Complex_Main "HOL-Library.Sublist" "HOL-Library.Multiset"
begin

section \<open>JavaScript values as the client sees them\<close>

text \<open>
  The browser client (\<^verbatim>\<open>src/server/assets_web/js/app.js\<close>) works on values that come out
  of \<^verbatim>\<open>JSON.parse\<close>. A parsed value is \<open>null\<close>, a boolean, a finite number, a string, an
  array or an object. Numbers are modelled as exact reals: the rounding of IEEE doubles, the
  overflow of a huge literal to \<open>Infinity\<close> and the sign of zero are not modelled. An object
  is the association list of its own properties, and a property is read from its first
  binding. \<open>undefined\<close> is never part of a parsed value; it only arises from reading a
  missing property, so a value that may be \<open>undefined\<close> has type \<open>json option\<close>.
\<close>

datatype json =
    JNull
  | JBool bool
  | JNum real
  | JStr string
  | JArr "json list"
  | JObj "(string \<times> json) list"

text \<open>The result of a numeric coercion: a JavaScript number that may be \<open>NaN\<close> or infinite.\<close>

datatype jsnum = NaN | Fin real | PosInf | NegInf

text \<open>\<^verbatim>\<open>x?.k\<close>, and \<^verbatim>\<open>x.k\<close> on a value that is not \<open>null\<close> or \<open>undefined\<close>: only an object has
  the properties the client asks for.\<close>

definition get_prop :: "json option \<Rightarrow> string \<Rightarrow> json option" where
  "get_prop v k = (case v of Some (JObj kvs) \<Rightarrow> map_of kvs k | _ \<Rightarrow> None)"

text \<open>ToBoolean.\<close>

fun truthy :: "json option \<Rightarrow> bool" where
  "truthy None = False"
| "truthy (Some JNull) = False"
| "truthy (Some (JBool b)) = b"
| "truthy (Some (JNum x)) = (x \<noteq> 0)"
| "truthy (Some (JStr s)) = (s \<noteq> [])"
| "truthy (Some (JArr xs)) = True"
| "truthy (Some (JObj kvs)) = True"

text \<open>\<^verbatim>\<open>x || d\<close> with a default that is a parsed value.\<close>

definition or_else :: "json option \<Rightarrow> json \<Rightarrow> json" where
  "or_else v d = (case v of Some x \<Rightarrow> (if truthy v then x else d) | None \<Rightarrow> d)"

subsection \<open>Number(...)\<close>

text \<open>
  StringToNumber on the ASCII part of the grammar: white space is trimmed, the empty string
  is 0, then a binary, octal or hexadecimal integer, or a signed decimal literal with an
  optional fraction and exponent, or a signed \<open>Infinity\<close>. Anything else is \<open>NaN\<close>.
  Strings are byte strings; the white space characters outside ASCII are not modelled.
\<close>

definition isStrWhiteSpace :: "char \<Rightarrow> bool" where
  "isStrWhiteSpace c = (c \<in> set [CHR 0x09, CHR 0x0A, CHR 0x0B, CHR 0x0C, CHR 0x0D, CHR '' ''])"

definition trim :: "string \<Rightarrow> string" where
  "trim s = rev (dropWhile isStrWhiteSpace (rev (dropWhile isStrWhiteSpace s)))"

definition digit_val :: "char \<Rightarrow> nat option" where
  "digit_val c = map_of (zip ''0123456789abcdef'' [0..<16] @ zip ''ABCDEF'' [10..<16]) c"

definition is_digit :: "nat \<Rightarrow> char \<Rightarrow> bool" where
  "is_digit base c = (case digit_val c of Some d \<Rightarrow> d < base | None \<Rightarrow> False)"

definition digits_val :: "nat \<Rightarrow> string \<Rightarrow> nat" where
  "digits_val base ds = foldl (\<lambda>acc c. acc * base + (case digit_val c of Some d \<Rightarrow> d | None \<Rightarrow> 0)) 0 ds"

definition radix_literal :: "nat \<Rightarrow> string \<Rightarrow> jsnum" where
  "radix_literal base ds = (if ds \<noteq> [] \<and> list_all (is_digit base) ds then Fin (real (digits_val base ds)) else NaN)"

text \<open>ExponentPart: \<open>e\<close> or \<open>E\<close>, an optional sign, at least one digit, and nothing after it.
  The result is the factor the mantissa is multiplied by.\<close>

definition exponent_part :: "string \<Rightarrow> real option" where
  "exponent_part s =
     (case s of
        [] \<Rightarrow> Some 1
      | c # r \<Rightarrow>
          if c = CHR ''e'' \<or> c = CHR ''E'' then
            (let (neg, ds) = (case r of
                                 x # r' \<Rightarrow> if x = CHR ''-'' then (True, r')
                                           else if x = CHR ''+'' then (False, r') else (False, r)
                               | [] \<Rightarrow> (False, r))
             in if ds \<noteq> [] \<and> list_all (is_digit 10) ds
                then Some (if neg then 1 / 10 ^ digits_val 10 ds else 10 ^ digits_val 10 ds)
                else None)
          else None)"

text \<open>StrUnsignedDecimalLiteral without \<open>Infinity\<close>: digits, an optional point and digits
  (at least one digit on one side of the point), an optional exponent.\<close>

definition unsigned_decimal :: "string \<Rightarrow> real option" where
  "unsigned_decimal s =
     (let ip = takeWhile (is_digit 10) s;
          r1 = dropWhile (is_digit 10) s;
          (fp, dot, r2) = (case r1 of
                             c # r \<Rightarrow> if c = CHR ''.''
                                       then (takeWhile (is_digit 10) r, True, dropWhile (is_digit 10) r)
                                       else ([], False, r1)
                           | [] \<Rightarrow> ([], False, r1))
      in if ip = [] \<and> fp = [] then None
         else (case exponent_part r2 of
                 None \<Rightarrow> None
               | Some e \<Rightarrow>
                   Some ((real (digits_val 10 ip) + real (digits_val 10 fp) / 10 ^ length fp) * e)))"

definition signed_decimal :: "string \<Rightarrow> jsnum" where
  "signed_decimal s =
     (let (neg, u) = (case s of
                        c # r \<Rightarrow> if c = CHR ''-'' then (True, r)
                                  else if c = CHR ''+'' then (False, r) else (False, s)
                      | [] \<Rightarrow> (False, s))
      in if u = ''Infinity'' then (if neg then NegInf else PosInf)
         else (case unsigned_decimal u of
                 None \<Rightarrow> NaN
               | Some x \<Rightarrow> Fin (if neg then - x else x)))"

definition stringToNumber :: "string \<Rightarrow> jsnum" where
  "stringToNumber s =
     (let t = trim s in
      if t = [] then Fin 0
      else if take 2 t \<in> set [''0x'', ''0X''] then radix_literal 16 (drop 2 t)
      else if take 2 t \<in> set [''0o'', ''0O''] then radix_literal 8 (drop 2 t)
      else if take 2 t \<in> set [''0b'', ''0B''] then radix_literal 2 (drop 2 t)
      else signed_decimal t)"

text \<open>
  \<^verbatim>\<open>Number(v)\<close> on a parsed value. An array is first turned into a string: the empty array
  gives the empty string; a one-element array gives the string of its element, where
  \<open>null\<close> prints as the empty string and a number prints as a literal that reads back as
  itself; a longer array prints with a comma and is never numeric. An object prints as
  \<^verbatim>\<open>[object Object]\<close>.
\<close>

fun toNumber :: "json \<Rightarrow> jsnum" where
  "toNumber JNull = Fin 0"
| "toNumber (JBool b) = Fin (if b then 1 else 0)"
| "toNumber (JNum x) = Fin x"
| "toNumber (JStr s) = stringToNumber s"
| "toNumber (JArr []) = Fin 0"
| "toNumber (JArr [JNull]) = Fin 0"
| "toNumber (JArr [JBool b]) = NaN"
| "toNumber (JArr [JNum x]) = Fin x"
| "toNumber (JArr [JStr s]) = stringToNumber s"
| "toNumber (JArr [JArr ys]) = toNumber (JArr ys)"
| "toNumber (JArr [JObj kvs]) = NaN"
| "toNumber (JArr (x # y # zs)) = NaN"
| "toNumber (JObj kvs) = NaN"

text \<open>\<^verbatim>\<open>Number(v || d)\<close> for a numeric default \<open>d\<close>.\<close>

definition number_or :: "json option \<Rightarrow> real \<Rightarrow> jsnum" where
  "number_or v d = (case v of Some x \<Rightarrow> (if truthy v then toNumber x else Fin d) | None \<Rightarrow> Fin d)"

text \<open>\<^verbatim>\<open>Math.max\<close>, \<^verbatim>\<open>Math.min\<close> and the client's \<^verbatim>\<open>clamp(n, a, b) = Math.min(b, Math.max(a, n))\<close>.\<close>

fun js_max :: "jsnum \<Rightarrow> jsnum \<Rightarrow> jsnum" where
  "js_max NaN _ = NaN"
| "js_max _ NaN = NaN"
| "js_max PosInf _ = PosInf"
| "js_max _ PosInf = PosInf"
| "js_max NegInf y = y"
| "js_max x NegInf = x"
| "js_max (Fin x) (Fin y) = Fin (max x y)"

fun js_min :: "jsnum \<Rightarrow> jsnum \<Rightarrow> jsnum" where
  "js_min NaN _ = NaN"
| "js_min _ NaN = NaN"
| "js_min NegInf _ = NegInf"
| "js_min _ NegInf = NegInf"
| "js_min PosInf y = y"
| "js_min x PosInf = x"
| "js_min (Fin x) (Fin y) = Fin (min x y)"

definition clamp :: "jsnum \<Rightarrow> real \<Rightarrow> real \<Rightarrow> jsnum" where
  "clamp n a b = js_min (Fin b) (js_max (Fin a) n)"

section \<open>String(...) and property keys\<close>

text \<open>
  \<^verbatim>\<open>String(v)\<close> on a parsed value. How a number prints (Number::toString) depends on its
  floating-point representation, which is not modelled: the printing of numbers is a
  parameter \<open>fmt\<close> of everything that converts to a string. An array prints its elements
  separated by commas, with \<open>null\<close> elements printed as the empty string.
\<close>

type_synonym numfmt = "real \<Rightarrow> string"

fun join_comma :: "string list \<Rightarrow> string" where
  "join_comma [] = []"
| "join_comma [s] = s"
| "join_comma (s # t # ts) = s @ '','' @ join_comma (t # ts)"

fun js_String :: "numfmt \<Rightarrow> json \<Rightarrow> string"
  and js_elems :: "numfmt \<Rightarrow> json list \<Rightarrow> string list" where
  "js_String fmt JNull = ''null''"
| "js_String fmt (JBool b) = (if b then ''true'' else ''false'')"
| "js_String fmt (JNum x) = fmt x"
| "js_String fmt (JStr s) = s"
| "js_String fmt (JArr xs) = join_comma (js_elems fmt xs)"
| "js_String fmt (JObj kvs) = ''[object Object]''"
| "js_elems fmt [] = []"
| "js_elems fmt (x # xs) = (if x = JNull then [] else js_String fmt x) # js_elems fmt xs"

text \<open>The decimal digits of a natural number: the canonical form of an array index, and
  what a formatter prints for a small non-negative integer.\<close>

fun nat_digits :: "nat \<Rightarrow> string" where
  "nat_digits n = (if n < 10 then [''0123456789'' ! n] else nat_digits (n div 10) @ [''0123456789'' ! (n mod 10)])"

text \<open>A formatter for the examples below: it prints the integer part in decimal, which is
  what JavaScript prints for the integers below \<open>10\<^sup>2\<^sup>1\<close>.\<close>

declare nat_digits.simps [simp del]

definition fmt_digits :: numfmt where
  "fmt_digits x = (if x < 0 then ''-'' @ nat_digits (nat \<lfloor>- x\<rfloor>) else nat_digits (nat \<lfloor>x\<rfloor>))"

section \<open>Evaluation scores\<close>

text \<open>
  \<^verbatim>\<open>scoreToCpLike(line)\<close>: \<open>None\<close> is the \<open>null\<close> it returns. \<^verbatim>\<open>v >= 0\<close> is false for \<open>NaN\<close>.
\<close>

fun js_ge0 :: "jsnum \<Rightarrow> bool" where
  "js_ge0 NaN = False"
| "js_ge0 (Fin x) = (0 \<le> x)"
| "js_ge0 PosInf = True"
| "js_ge0 NegInf = False"

definition scoreToCpLike :: "json option \<Rightarrow> jsnum option" where
  "scoreToCpLike line =
     (if \<not> truthy line then None
      else if get_prop line ''score_type'' = Some (JStr ''cp'') then
        Some (number_or (get_prop line ''score_value'') 0)
      else if get_prop line ''score_type'' = Some (JStr ''mate'') then
        (let v = number_or (get_prop line ''score_value'') 0
         in Some (Fin ((if js_ge0 v then 1 else - 1) * 30000)))
      else None)"

section \<open>Drop targets on the board\<close>

text \<open>
  The board is the 9 by 9 array that the SFEN parser returns: \<^verbatim>\<open>board[r][c]\<close> is \<open>null\<close> or
  a piece object \<^verbatim>\<open>{piece, owner}\<close>. Row 0 is gote's side. Reading a row that does not exist
  raises a TypeError in JavaScript (\<open>None\<close> below); reading past the end of a row gives
  \<open>undefined\<close>.
\<close>

record board_piece =
  piece :: string
  owner :: string

type_synonym board = "board_piece option list list"

datatype cell = Undefined | Null | Occupied board_piece

definition board_at :: "board \<Rightarrow> nat \<Rightarrow> nat \<Rightarrow> cell option" where
  "board_at b r c =
     (if r < length b then
        Some (if c < length (b ! r)
              then (case b ! r ! c of None \<Rightarrow> Null | Some p \<Rightarrow> Occupied p)
              else Undefined)
      else None)"

text \<open>\<^verbatim>\<open>wouldCreateNifu(board, row, col, owner)\<close>: the loop over the rows, which returns at the
  first unpromoted pawn of \<open>owner\<close> in the column.\<close>

fun nifu_scan :: "board \<Rightarrow> nat \<Rightarrow> string \<Rightarrow> nat list \<Rightarrow> bool option" where
  "nifu_scan b col ow [] = Some False"
| "nifu_scan b col ow (r # rs) =
     (case board_at b r col of
        None \<Rightarrow> None
      | Some (Occupied p) \<Rightarrow>
          if owner p = ow \<and> piece p = ''pawn'' then Some True else nifu_scan b col ow rs
      | Some _ \<Rightarrow> nifu_scan b col ow rs)"

definition wouldCreateNifu :: "board \<Rightarrow> nat \<Rightarrow> nat \<Rightarrow> string \<Rightarrow> bool option" where
  "wouldCreateNifu b row col ow = nifu_scan b col ow [0..<9]"

definition isDeadEndDrop :: "string \<Rightarrow> nat \<Rightarrow> string \<Rightarrow> bool" where
  "isDeadEndDrop pieceType row ow =
     (if pieceType = ''pawn'' \<or> pieceType = ''lance'' then
        (if ow = ''sente'' then row = 0 else row = 8)
      else if pieceType = ''knight'' then
        (if ow = ''sente'' then row \<le> 1 else row \<ge> 7)
      else False)"

text \<open>
  \<^verbatim>\<open>baseType(t) = normalizeDropPieceType(t) || t\<close>. \<^verbatim>\<open>normalizeDropPieceType\<close> comes from the
  vendored \<^verbatim>\<open>usi.js\<close>, which is not part of the sources at hand; it is a parameter here, with
  \<open>None\<close> for a \<open>null\<close> or \<open>undefined\<close> result.
\<close>

definition baseType :: "(string \<Rightarrow> string option) \<Rightarrow> string \<Rightarrow> string" where
  "baseType normalizeDropPieceType t =
     (case normalizeDropPieceType t of Some x \<Rightarrow> (if x \<noteq> [] then x else t) | None \<Rightarrow> t)"

text \<open>\<^verbatim>\<open>getDropMoves\<close>: the two nested loops visit the squares in row-major order and push
  a square unless one of the three \<^verbatim>\<open>continue\<close> tests fires.\<close>

fun drop_scan :: "board \<Rightarrow> string \<Rightarrow> string \<Rightarrow> (nat \<times> nat) list \<Rightarrow> (nat \<times> nat) list \<Rightarrow> (nat \<times> nat) list option" where
  "drop_scan b t ow [] out = Some out"
| "drop_scan b t ow ((r, c) # sqs) out =
     (case board_at b r c of
        None \<Rightarrow> None
      | Some Null \<Rightarrow>
          (case (if t = ''pawn'' then wouldCreateNifu b r c ow else Some False) of
             None \<Rightarrow> None
           | Some True \<Rightarrow> drop_scan b t ow sqs out
           | Some False \<Rightarrow>
               if isDeadEndDrop t r ow then drop_scan b t ow sqs out
               else drop_scan b t ow sqs (out @ [(r, c)]))
      | Some _ \<Rightarrow> drop_scan b t ow sqs out)"

definition getDropMoves :: "(string \<Rightarrow> string option) \<Rightarrow> board \<Rightarrow> string \<Rightarrow> string \<Rightarrow> (nat \<times> nat) list option" where
  "getDropMoves normalizeDropPieceType b pieceType ow =
     drop_scan b (baseType normalizeDropPieceType pieceType) ow (List.product [0..<9] [0..<9]) []"

text \<open>A drop target as the rules of shogi have it, for a piece of (normalized) type \<open>t\<close>:
  the square is empty; a pawn does not join another unpromoted pawn of its owner in the
  column; a pawn or lance does not land on the owner's last rank, nor a knight on the last
  two. Sente's last rank is row 0, gote's is row 8.\<close>

definition legal_drop :: "board \<Rightarrow> string \<Rightarrow> string \<Rightarrow> nat \<times> nat \<Rightarrow> bool" where
  "legal_drop b t ow sq =
     (case sq of (r, c) \<Rightarrow>
        r < 9 \<and> c < 9 \<and> board_at b r c = Some Null \<and>
        (t = ''pawn'' \<longrightarrow>
           (\<forall>r' < 9. \<forall>p. board_at b r' c = Some (Occupied p) \<longrightarrow> \<not> (owner p = ow \<and> piece p = ''pawn''))) \<and>
        (t = ''pawn'' \<or> t = ''lance'' \<longrightarrow> (if ow = ''sente'' then r \<noteq> 0 else r \<noteq> 8)) \<and>
        (t = ''knight'' \<longrightarrow> (if ow = ''sente'' then 2 \<le> r else r \<le> 6)))"

text \<open>A board of 9 rows of 9 squares, as the SFEN parser builds it.\<close>

definition wf_board :: "board \<Rightarrow> bool" where
  "wf_board b = (length b = 9 \<and> list_all (\<lambda>row. length row = 9) b)"

text \<open>An example position: a sente pawn on row 6, column 2, a gote pawn on row 2, column 2,
  and nothing else.\<close>

definition sample_board :: board where
  "sample_board =
     (replicate 9 (replicate 9 None))
       [6 := (replicate 9 None)[2 := Some \<lparr>piece = ''pawn'', owner = ''sente''\<rparr>],
        2 := (replicate 9 None)[2 := Some \<lparr>piece = ''pawn'', owner = ''gote''\<rparr>]]"

section \<open>The client's state and its WebSocket handlers\<close>

text \<open>
  The part of \<^verbatim>\<open>state\<close> that the session and analysis handlers read and write. \<open>ws\<close> is
  the \<^verbatim>\<open>readyState\<close> of \<^verbatim>\<open>state.ws\<close> (\<open>None\<close> before the first \<^verbatim>\<open>connectWs\<close>). The DOM is
  reduced to three things: whether the page has the \<^verbatim>\<open>toastHost\<close> element, the toasts appended
  to it (class name and text; their removal by timer is not modelled), and whether the
  take-over dialog of \<^verbatim>\<open>session:busy\<close> is waiting for an answer. \<open>sent\<close> collects the frames
  passed to \<^verbatim>\<open>ws.send\<close>, as the server parses them. Rendering (\<^verbatim>\<open>rerenderAll\<close>,
  \<^verbatim>\<open>rerenderAnalysisOnly\<close>, the status pills, \<^verbatim>\<open>clearSelection\<close>) touches none of these fields
  and is assumed not to throw. The page is assumed to have the elements the listeners use
  (\<^verbatim>\<open>modalHost\<close> among them).
\<close>

datatype ready_state = CONNECTING | OPEN | CLOSING | CLOSED

record analysis_state =
  available :: bool
  enabled :: bool
  multipv :: jsnum
  statusText :: string
  elapsedMs :: jsnum
  nodeId :: json
  lines :: "json list"
  history :: "jsnum list"
  engineStatus :: json

record frame =
  frame_type :: string
  payload :: json
  session_id :: "json option"
  owner_token :: "json option"

record client =
  ws :: "ready_state option"
  hasGranted :: bool
  isOwner :: bool
  sessionId :: json
  ownerToken :: json
  game :: json
  analysis :: analysis_state
  toastHost :: bool
  toasts :: "(string \<times> string) list"
  busyModal :: bool
  sent :: "frame list"

definition initial_state :: "bool \<Rightarrow> client" where
  "initial_state has_toast_host =
     \<lparr>ws = None, hasGranted = False, isOwner = False, sessionId = JNull, ownerToken = JNull,
      game = JNull,
      analysis = \<lparr>available = False, enabled = False, multipv = Fin 1, statusText = ''stopped'',
                   elapsedMs = Fin 0, nodeId = JNull, lines = [], history = [],
                   engineStatus = JNull\<rparr>,
      toastHost = has_toast_host, toasts = [], busyModal = False, sent = []\<rparr>"

text \<open>
  \<^verbatim>\<open>sendWs(type, payload)\<close>: nothing is sent unless the socket is open; the tokens are added
  when they are truthy.
\<close>

definition sendWs :: "string \<Rightarrow> json \<Rightarrow> client \<Rightarrow> client" where
  "sendWs ty pl s =
     (if ws s \<noteq> Some OPEN then s
      else s\<lparr>sent := sent s @
             [\<lparr>frame_type = ty, payload = pl,
               session_id = (if truthy (Some (sessionId s)) then Some (sessionId s) else None),
               owner_token = (if truthy (Some (ownerToken s)) then Some (ownerToken s) else None)\<rparr>]\<rparr>)"

text \<open>\<^verbatim>\<open>toast(level, message)\<close>: the class name is \<^verbatim>\<open>`toast ${level || "info"}`.trim()\<close>, the
  text is \<^verbatim>\<open>String(message || "")\<close>.\<close>

definition toast :: "numfmt \<Rightarrow> json \<Rightarrow> json \<Rightarrow> client \<Rightarrow> client" where
  "toast fmt level message s =
     (if \<not> toastHost s then s
      else s\<lparr>toasts := toasts s @
             [(trim (''toast '' @ js_String fmt (or_else (Some level) (JStr ''info''))),
               js_String fmt (or_else (Some message) (JStr [])))]\<rparr>)"

text \<open>The four assignments that every loss of the session repeats.\<close>

definition drop_session :: "client \<Rightarrow> client" where
  "drop_session s = s\<lparr>hasGranted := False, isOwner := False, sessionId := JNull, ownerToken := JNull\<rparr>"

text \<open>\<^verbatim>\<open>a !== b\<close> between values of different messages: primitives compare by value, arrays
  and objects by identity, and two parsed messages never share an object.\<close>

fun strict_eq :: "json \<Rightarrow> json \<Rightarrow> bool" where
  "strict_eq JNull JNull = True"
| "strict_eq (JBool a) (JBool b) = (a = b)"
| "strict_eq (JNum a) (JNum b) = (a = b)"
| "strict_eq (JStr a) (JStr b) = (a = b)"
| "strict_eq _ _ = False"

definition syncAnalysisFromGame :: "client \<Rightarrow> client" where
  "syncAnalysisFromGame s =
     (let ui = or_else (get_prop (Some (game s)) ''ui_state'') (JObj []);
          en = truthy (get_prop (Some ui) ''analysis_enabled'');
          raw = number_or (get_prop (Some ui) ''analysis_multipv'') 1;
          a = (analysis s)\<lparr>enabled := en, multipv := clamp raw 1 5\<rparr>;
          curNode = or_else (get_prop (Some (game s)) ''current_node_id'') JNull
      in if truthy (Some (nodeId a)) \<and> truthy (Some curNode) \<and> \<not> strict_eq (nodeId a) curNode
         then s\<lparr>analysis := a\<lparr>lines := [], elapsedMs := Fin 0, history := [],
                               statusText := (if en then ''starting...'' else ''stopped'')\<rparr>\<rparr>
         else s\<lparr>analysis := a\<rparr>)"

text \<open>\<^verbatim>\<open>n || d\<close> on a number: \<open>NaN\<close> and zero are falsy. \<^verbatim>\<open>a !== b\<close> on numbers: \<open>NaN\<close> differs
  from everything. A number in a payload reaches the wire through \<^verbatim>\<open>JSON.stringify\<close>, which
  writes \<open>null\<close> for \<open>NaN\<close> and the infinities.\<close>

definition num_or :: "jsnum \<Rightarrow> real \<Rightarrow> jsnum" where
  "num_or n d = (if n = NaN \<or> n = Fin 0 then Fin d else n)"

definition num_ne :: "jsnum \<Rightarrow> jsnum \<Rightarrow> bool" where
  "num_ne a b = (a = NaN \<or> b = NaN \<or> a \<noteq> b)"

fun num_json :: "jsnum \<Rightarrow> json" where
  "num_json (Fin x) = JNum x"
| "num_json _ = JNull"

text \<open>The Japanese texts of the two fixed warnings, in translation (the file is ASCII).\<close>

definition kicked_text :: string where
  "kicked_text = ''the session was taken over''"

definition stale_text :: string where
  "stale_text = ''the session is stale; reconnecting''"

definition on_toast :: "numfmt \<Rightarrow> json \<Rightarrow> client \<Rightarrow> client" where
  "on_toast fmt pl s =
     toast fmt (or_else (get_prop (Some pl) ''level'') (JStr ''info''))
               (or_else (get_prop (Some pl) ''message'') (JStr [])) s"

definition on_session_busy :: "client \<Rightarrow> client" where
  "on_session_busy s = (drop_session s)\<lparr>busyModal := True\<rparr>"

definition on_session_kicked :: "numfmt \<Rightarrow> client \<Rightarrow> client" where
  "on_session_kicked fmt s = drop_session (toast fmt (JStr ''warning'') (JStr kicked_text) s)"

definition on_session_stale :: "numfmt \<Rightarrow> client \<Rightarrow> client" where
  "on_session_stale fmt s =
     (let s1 = drop_session (toast fmt (JStr ''warning'') (JStr stale_text) s)
      in s1\<lparr>ws := (if ws s1 = Some OPEN \<or> ws s1 = Some CONNECTING then Some CLOSING else ws s1)\<rparr>)"

definition on_session_granted :: "numfmt \<Rightarrow> json \<Rightarrow> client \<Rightarrow> client" where
  "on_session_granted fmt pl s =
     (let caps = or_else (get_prop (Some pl) ''server_capabilities'') (JObj []);
          astate = get_prop (Some pl) ''analysis_state'';
          rawMultipv = num_or (number_or (get_prop astate ''multipv'') 1) 1;
          s1 = s\<lparr>hasGranted := True, isOwner := True,
                 sessionId := or_else (get_prop (Some pl) ''session_id'') JNull,
                 ownerToken := or_else (get_prop (Some pl) ''owner_token'') JNull,
                 analysis := (analysis s)
                   \<lparr>available := truthy (get_prop (Some caps) ''analysis''),
                    engineStatus := or_else (get_prop (Some pl) ''engine_status'') JNull,
                    enabled := truthy (get_prop astate ''enabled''),
                    multipv := clamp rawMultipv 1 5\<rparr>\<rparr>;
          es = or_else (get_prop (Some pl) ''engine_status'') (JObj []);
          s2 = (case get_prop (Some es) ''last_error'' of
                  Some e \<Rightarrow> if truthy (Some e) then toast fmt (JStr ''error'') (JStr (js_String fmt e)) s1 else s1
                | None \<Rightarrow> s1);
          s3 = syncAnalysisFromGame (s2\<lparr>game := or_else (get_prop (Some pl) ''game'') JNull\<rparr>)
      in if available (analysis s3) \<and> isOwner s3 \<and> truthy (Some (sessionId s3))
            \<and> num_ne rawMultipv (multipv (analysis s3))
         then sendWs ''analysis:set_multipv'' (JObj [(''multipv'', num_json (multipv (analysis s3)))]) s3
         else s3)"

definition on_game_state :: "json \<Rightarrow> client \<Rightarrow> client" where
  "on_game_state pl s = syncAnalysisFromGame (s\<lparr>game := or_else (get_prop (Some pl) ''game'') JNull\<rparr>)"

definition on_analysis_update :: "json \<Rightarrow> client \<Rightarrow> client" where
  "on_analysis_update pl s =
     (let ls = (case get_prop (Some pl) ''lines'' of Some (JArr xs) \<Rightarrow> xs | _ \<Rightarrow> []);
          a = (analysis s)
                \<lparr>nodeId := or_else (get_prop (Some pl) ''node_id'')
                             (or_else (get_prop (Some (game s)) ''current_node_id'') JNull),
                 elapsedMs := number_or (get_prop (Some pl) ''elapsed_ms'') 0,
                 lines := ls,
                 statusText := ''running''\<rparr>;
          best = or_else (get_prop (Some pl) ''bestline'')
                   (or_else (case ls of [] \<Rightarrow> None | x # _ \<Rightarrow> Some x) JNull)
      in case scoreToCpLike (Some best) of
           Some cp \<Rightarrow> s\<lparr>analysis := a\<lparr>history := history a @ [cp]\<rparr>\<rparr>
         | None \<Rightarrow> s\<lparr>analysis := a\<rparr>)"

text \<open>
  The test \<^verbatim>\<open>/(failed|timeout|not configured|exited|error)/i.test(r)\<close>. Without the \<open>u\<close> flag
  a regular expression compares characters after mapping them to upper case, and never maps
  a character outside ASCII onto an ASCII one; on byte strings this is the upper-casing of
  the ASCII letters. The matcher tries each alternative at each position from the left.
\<close>

definition canonicalize :: "char \<Rightarrow> char" where
  "canonicalize c =
     (case map_of (zip ''abcdefghijklmnopqrstuvwxyz'' ''ABCDEFGHIJKLMNOPQRSTUVWXYZ'') c of
        Some u \<Rightarrow> u
      | None \<Rightarrow> c)"

fun match_here :: "string \<Rightarrow> string \<Rightarrow> bool" where
  "match_here [] cs = True"
| "match_here (p # ps) [] = False"
| "match_here (p # ps) (c # cs) = (canonicalize p = canonicalize c \<and> match_here ps cs)"

definition engine_error_kinds :: "string list" where
  "engine_error_kinds = [''failed'', ''timeout'', ''not configured'', ''exited'', ''error'']"

fun engine_error_test :: "string \<Rightarrow> bool" where
  "engine_error_test [] = list_ex (\<lambda>p. match_here p []) engine_error_kinds"
| "engine_error_test (c # cs) =
     (list_ex (\<lambda>p. match_here p (c # cs)) engine_error_kinds \<or> engine_error_test cs)"

definition on_analysis_stopped :: "numfmt \<Rightarrow> json \<Rightarrow> client \<Rightarrow> client" where
  "on_analysis_stopped fmt pl s =
     (let s1 = s\<lparr>analysis := (analysis s)
                 \<lparr>statusText := js_String fmt (or_else (get_prop (Some pl) ''reason'') (JStr ''stopped''))\<rparr>\<rparr>;
          r = js_String fmt (or_else (get_prop (Some pl) ''reason'') (JStr []))
      in if engine_error_test r then toast fmt (JStr ''error'') (JStr r) s1 else s1)"

text \<open>The message listener, after \<^verbatim>\<open>JSON.parse\<close> succeeded (a frame that does not parse is
  ignored): \<^verbatim>\<open>type = String(msg?.type || "")\<close>, \<^verbatim>\<open>payload = msg?.payload || {}\<close>, then the first
  handler whose type matches.\<close>

definition on_message :: "numfmt \<Rightarrow> json \<Rightarrow> client \<Rightarrow> client" where
  "on_message fmt msg s =
     (let ty = js_String fmt (or_else (get_prop (Some msg) ''type'') (JStr []));
          pl = or_else (get_prop (Some msg) ''payload'') (JObj [])
      in if ty = ''toast'' then on_toast fmt pl s
         else if ty = ''session:busy'' then on_session_busy s
         else if ty = ''session:kicked'' then on_session_kicked fmt s
         else if ty = ''session:stale'' then on_session_stale fmt s
         else if ty = ''session:granted'' then on_session_granted fmt pl s
         else if ty = ''game:state'' then on_game_state pl s
         else if ty = ''analysis:update'' then on_analysis_update pl s
         else if ty = ''analysis:stopped'' then on_analysis_stopped fmt pl s
         else s)"

text \<open>
  What can happen to the client. \<open>Connect\<close> is a call of \<^verbatim>\<open>connectWs\<close> (at start-up and
  from the retry timer); \<open>WsOpen\<close>, \<open>WsClose\<close> and \<open>WsMessage\<close> are the socket's events, a
  message being delivered only while the socket is open; \<open>ModalAnswer\<close> resolves the
  take-over dialog with the button's value or \<open>null\<close>. Of the user interface, the controls
  modelled are the ones whose listener sends unconditionally: the new-game button, the
  load button with the selected game id, and the MultiPV control with its value.
\<close>

datatype event =
    Connect
  | WsOpen
  | WsClose
  | WsMessage json
  | ModalAnswer "string option"
  | NewGameClick
  | LoadSelectedClick string
  | MultipvChange string

fun step :: "numfmt \<Rightarrow> client \<Rightarrow> event \<Rightarrow> client" where
  "step fmt s Connect = s\<lparr>ws := Some CONNECTING\<rparr>"
| "step fmt s WsOpen = (if ws s = Some CONNECTING then s\<lparr>ws := Some OPEN\<rparr> else s)"
| "step fmt s WsClose = (if ws s = None then s else (drop_session s)\<lparr>ws := Some CLOSED\<rparr>)"
| "step fmt s (WsMessage msg) = (if ws s = Some OPEN then on_message fmt msg s else s)"
| "step fmt s (ModalAnswer ans) =
     (if busyModal s
      then (if ans = Some ''takeover'' then sendWs ''session:takeover'' (JObj []) (s\<lparr>busyModal := False\<rparr>)
            else s\<lparr>busyModal := False\<rparr>)
      else s)"
| "step fmt s NewGameClick = sendWs ''game:new'' (JObj []) s"
| "step fmt s (LoadSelectedClick gid) =
     (if gid \<noteq> [] then sendWs ''game:load'' (JObj [(''game_id'', JStr gid)]) s else s)"
| "step fmt s (MultipvChange v) =
     sendWs ''analysis:set_multipv''
       (JObj [(''multipv'', num_json (clamp (number_or (Some (JStr v)) 1) 1 5))]) s"

definition run :: "numfmt \<Rightarrow> bool \<Rightarrow> event list \<Rightarrow> client" where
  "run fmt has_toast_host evs = foldl (step fmt) (initial_state has_toast_host) evs"

text \<open>The owner-authored message types: \<^verbatim>\<open>game:*\<close>, \<^verbatim>\<open>node:*\<close> and \<^verbatim>\<open>analysis:*\<close>.\<close>

definition owner_authored :: "string \<Rightarrow> bool" where
  "owner_authored ty = (take 5 ty = ''game:'' \<or> take 5 ty = ''node:'' \<or> take 9 ty = ''analysis:'')"

text \<open>What the claim about \<^verbatim>\<open>analysis:stopped\<close> calls a reason that matches an engine-error
  kind: one of the five words occurs in it, letter case aside.\<close>

definition mentions_engine_error :: "string \<Rightarrow> bool" where
  "mentions_engine_error r =
     (\<exists>w \<in> set engine_error_kinds. sublist (map canonicalize w) (map canonicalize r))"

text \<open>What the session handlers maintain: a token is \<open>null\<close> or truthy, and a client that is
  not the owner holds no token.\<close>

definition tokens_ok :: "client \<Rightarrow> bool" where
  "tokens_ok s =
     ((sessionId s = JNull \<or> truthy (Some (sessionId s))) \<and>
      (ownerToken s = JNull \<or> truthy (Some (ownerToken s))) \<and>
      (\<not> isOwner s \<longrightarrow> sessionId s = JNull \<and> ownerToken s = JNull))"

text \<open>Example frames: a grant of session \<open>S1\<close> with token \<open>T1\<close> whose game stores the
  MultiPV setting \<open>mp\<close>, a \<^verbatim>\<open>session:busy\<close>, a \<^verbatim>\<open>session:kicked\<close>, and a \<^verbatim>\<open>game:state\<close> whose
  game stores \<open>mp\<close>.\<close>

definition granted_frame :: "json \<Rightarrow> json" where
  "granted_frame mp =
     JObj [(''type'', JStr ''session:granted''),
           (''payload'', JObj
              [(''session_id'', JStr ''S1''), (''owner_token'', JStr ''T1''),
               (''server_capabilities'', JObj [(''analysis'', JBool True)]),
               (''analysis_state'', JObj [(''enabled'', JBool False), (''multipv'', JNum 3)]),
               (''game'', JObj [(''current_node_id'', JStr ''n0''),
                                (''ui_state'', JObj [(''analysis_multipv'', mp)])])])]"

definition busy_frame :: json where
  "busy_frame = JObj [(''type'', JStr ''session:busy''), (''payload'', JObj [(''owner_since'', JNum 5)])]"

definition kicked_frame :: json where
  "kicked_frame = JObj [(''type'', JStr ''session:kicked''), (''payload'', JObj [(''reason'', JStr ''takeover'')])]"

definition game_state_frame :: "json \<Rightarrow> json" where
  "game_state_frame mp =
     JObj [(''type'', JStr ''game:state''),
           (''payload'', JObj [(''game'', JObj [(''current_node_id'', JStr ''n0''),
                                                (''ui_state'', JObj [(''analysis_multipv'', mp)])])])]"

section \<open>Navigation to the end of the line\<close>

text \<open>
  \<^verbatim>\<open>state.game?.children_index?.[nodeId]\<close>, as far as \<^verbatim>\<open>firstChildId\<close> can tell: the node id
  is turned into a property key by \<^verbatim>\<open>String\<close>; an object answers with its own property, an
  array with the element at an index written in canonical decimal form. Whatever else the
  lookup could return (an inherited property, a length, a character of a string) is no
  array, and \<^verbatim>\<open>firstChildId\<close> treats all of that like a missing entry.
\<close>

definition children_entry :: "json option \<Rightarrow> string \<Rightarrow> json option" where
  "children_entry ci key =
     (case ci of
        Some (JObj kvs) \<Rightarrow> map_of kvs key
      | Some (JArr xs) \<Rightarrow>
          (case find (\<lambda>n. nat_digits n = key) [0..<length xs] of
             Some n \<Rightarrow> Some (xs ! n)
           | None \<Rightarrow> None)
      | _ \<Rightarrow> None)"

text \<open>\<^verbatim>\<open>firstChildId(nodeId)\<close>: \<^verbatim>\<open>Array.isArray(idx) && idx.length ? idx[0] : null\<close>.\<close>

definition firstChildId :: "numfmt \<Rightarrow> json \<Rightarrow> json \<Rightarrow> json" where
  "firstChildId fmt g nid =
     (case children_entry (get_prop (Some g) ''children_index'') (js_String fmt nid) of
        Some (JArr (c # cs)) \<Rightarrow> c
      | _ \<Rightarrow> JNull)"

text \<open>
  The loop of the end button, \<^verbatim>\<open>while (next) { cur = next; next = firstChildId(cur); }\<close>,
  from a given \<open>cur\<close>. It need not terminate: \<open>None\<close> is the run that never leaves the loop.
\<close>

partial_function (option) end_loop :: "numfmt \<Rightarrow> json \<Rightarrow> json \<Rightarrow> json option" where
  "end_loop fmt g cur =
     (if truthy (Some (firstChildId fmt g cur)) then end_loop fmt g (firstChildId fmt g cur)
      else Some cur)"

declare end_loop.simps [code]

text \<open>The click listener of \<^verbatim>\<open>btnEnd\<close> (the browser delivers the click only while the button
  is enabled): it returns at once when there is no current node, and otherwise jumps to
  where the loop stops.\<close>

definition btnEnd_click :: "numfmt \<Rightarrow> client \<Rightarrow> client option" where
  "btnEnd_click fmt s =
     (case get_prop (Some (game s)) ''current_node_id'' of
        None \<Rightarrow> Some s
      | Some cur \<Rightarrow>
          if \<not> truthy (Some cur) then Some s
          else (case end_loop fmt (game s) cur of
                  None \<Rightarrow> None
                | Some r \<Rightarrow> Some (sendWs ''node:jump'' (JObj [(''node_id'', r)]) s)))"

text \<open>
  The parent-child relation that \<^verbatim>\<open>children_index\<close> describes, between property keys; one
  step along first children, between node ids; and the shape of the ids in a snapshot the
  server builds, where every child id is a non-empty string (a UUID).
\<close>

definition child_rel :: "numfmt \<Rightarrow> json \<Rightarrow> (string \<times> string) set" where
  "child_rel fmt g =
     {(k, js_String fmt c) | k c cs.
        children_entry (get_prop (Some g) ''children_index'') k = Some (JArr cs) \<and> c \<in> set cs}"

definition first_child_step :: "numfmt \<Rightarrow> json \<Rightarrow> (json \<times> json) set" where
  "first_child_step fmt g =
     {(a, b). truthy (Some (firstChildId fmt g a)) \<and> b = firstChildId fmt g a}"

definition child_ids_are_names :: "json \<Rightarrow> bool" where
  "child_ids_are_names g =
     (\<forall>k cs c. children_entry (get_prop (Some g) ''children_index'') k = Some (JArr cs) \<and> c \<in> set cs
        \<longrightarrow> (\<exists>n. c = JStr n \<and> n \<noteq> []))"

text \<open>An example snapshot: a main line \<open>a\<close>, \<open>bb\<close>, \<open>ccc\<close> with a side branch \<open>xx\<close> at the
  root.\<close>

definition line_game :: json where
  "line_game =
     JObj [(''current_node_id'', JStr ''a''),
           (''children_index'',
              JObj [(''a'', JArr [JStr ''bb'', JStr ''xx'']), (''bb'', JArr [JStr ''ccc'']),
                    (''ccc'', JArr []), (''xx'', JArr [])])]"

section \<open>The server's game tree\<close>

text \<open>
  Modelled from the spec: the Game Tree Engine (\<^verbatim>\<open>play_move\<close>, \<^verbatim>\<open>reorder_children\<close> and the
  node store they work on) runs on the server, and the server's code is not among the
  sources at hand; only the client that sends \<^verbatim>\<open>node:play_move\<close> and
  \<^verbatim>\<open>node:reorder_children\<close> is. The definitions of this section follow sections 3 and 4.1 of
  the specification. Node ids are opaque there; here they are natural numbers, and a new
  node gets an id above every id in use. Applying a move to a position (the SFEN step,
  which may reject the move) is a parameter \<open>apply_move\<close>.
\<close>

record node =
  node_id :: nat
  parent_id :: "nat option"
  order_index :: nat
  move_usi :: "string option"
  position_sfen :: string
  node_comment :: string

record game_tree =
  nodes :: "node list"
  root_node_id :: nat
  current_node_id :: nat

datatype tree_error = UnknownNode | BadPermutation | InvalidMove

text \<open>Modelled from the spec: "exact string match after normalization (lowercase,
  trimmed)".\<close>

definition to_lower :: "char \<Rightarrow> char" where
  "to_lower c =
     (case map_of (zip ''ABCDEFGHIJKLMNOPQRSTUVWXYZ'' ''abcdefghijklmnopqrstuvwxyz'') c of
        Some l \<Rightarrow> l
      | None \<Rightarrow> c)"

definition normalize_move :: "string \<Rightarrow> string" where
  "normalize_move m = map to_lower (trim m)"

definition same_move :: "string \<Rightarrow> node \<Rightarrow> bool" where
  "same_move m c = (case move_usi c of None \<Rightarrow> False | Some m' \<Rightarrow> normalize_move m' = normalize_move m)"

text \<open>Modelled from the spec: \<^verbatim>\<open>children_of\<close>, the children of a node in sibling order.\<close>

definition siblings :: "game_tree \<Rightarrow> nat \<Rightarrow> node list" where
  "siblings t p = filter (\<lambda>n. parent_id n = Some p) (nodes t)"

definition children_of :: "game_tree \<Rightarrow> nat \<Rightarrow> node list" where
  "children_of t p = sort_key order_index (siblings t p)"

definition fresh_id :: "node list \<Rightarrow> nat" where
  "fresh_id ns = fold (\<lambda>n m. max (Suc (node_id n)) m) ns 0"

text \<open>
  Modelled from the spec: "If a child of \<^verbatim>\<open>from_node_id\<close> already has an equal \<^verbatim>\<open>move_usi\<close>,
  return that child's id (no new node). Otherwise create a child with \<^verbatim>\<open>order_index =
  current_children_count\<close>, cache its \<^verbatim>\<open>position_sfen\<close> [...] and set \<^verbatim>\<open>current_node_id\<close> to
  the new id. Fails with \<^verbatim>\<open>InvalidMove\<close> if SFEN application rejects the move; \<^verbatim>\<open>UnknownNode\<close>
  if the parent does not exist." In the scenario "Dedup play" the current node is that
  child after either call, so the first branch moves the cursor as well.
\<close>

definition new_child :: "game_tree \<Rightarrow> nat \<Rightarrow> string \<Rightarrow> string \<Rightarrow> node" where
  "new_child t from_node_id m sfen =
     \<lparr>node_id = fresh_id (nodes t), parent_id = Some from_node_id,
      order_index = length (children_of t from_node_id),
      move_usi = Some m, position_sfen = sfen, node_comment = []\<rparr>"

definition play_move ::
  "(string \<Rightarrow> string \<Rightarrow> string option) \<Rightarrow> game_tree \<Rightarrow> nat \<Rightarrow> string \<Rightarrow> tree_error + (nat \<times> game_tree)" where
  "play_move apply_move t from_node_id m =
     (case find (\<lambda>n. node_id n = from_node_id) (nodes t) of
        None \<Rightarrow> Inl UnknownNode
      | Some parent \<Rightarrow>
          (case find (same_move m) (children_of t from_node_id) of
             Some c \<Rightarrow> Inr (node_id c, t\<lparr>current_node_id := node_id c\<rparr>)
           | None \<Rightarrow>
               (case apply_move (position_sfen parent) m of
                  None \<Rightarrow> Inl InvalidMove
                | Some sfen \<Rightarrow>
                    Inr (fresh_id (nodes t),
                         t\<lparr>nodes := nodes t @ [new_child t from_node_id m sfen],
                           current_node_id := fresh_id (nodes t)\<rparr>))))"

text \<open>
  Modelled from the spec: "The provided list must be a permutation of the current children
  ids; \<^verbatim>\<open>order_index\<close> is rewritten to match. Fails \<^verbatim>\<open>BadPermutation\<close> otherwise.
  All-or-nothing."
\<close>

definition index_of :: "nat \<Rightarrow> nat list \<Rightarrow> nat" where
  "index_of x xs = length (takeWhile (\<lambda>y. y \<noteq> x) xs)"

definition reorder_children :: "game_tree \<Rightarrow> nat \<Rightarrow> nat list \<Rightarrow> tree_error + game_tree" where
  "reorder_children t p ordered_child_ids =
     (if mset ordered_child_ids = mset (map node_id (children_of t p)) then
        Inr (t\<lparr>nodes := map (\<lambda>n. if parent_id n = Some p
                                   then n\<lparr>order_index := index_of (node_id n) ordered_child_ids\<rparr>
                                   else n) (nodes t)\<rparr>)
      else Inl BadPermutation)"

text \<open>Modelled from the spec: a sequence of the two operations, applied in order; an
  operation that fails leaves the tree as it was ("the Synchronizer never partially
  applies").\<close>

datatype tree_op = PlayMove nat string | ReorderChildren nat "nat list"

fun apply_op :: "(string \<Rightarrow> string \<Rightarrow> string option) \<Rightarrow> game_tree \<Rightarrow> tree_op \<Rightarrow> game_tree" where
  "apply_op apply_move t (PlayMove p m) =
     (case play_move apply_move t p m of Inl e \<Rightarrow> t | Inr (i, t') \<Rightarrow> t')"
| "apply_op apply_move t (ReorderChildren p ids) =
     (case reorder_children t p ids of Inl e \<Rightarrow> t | Inr t' \<Rightarrow> t')"

text \<open>Modelled from the spec: the node invariant "the multiset of \<^verbatim>\<open>order_index\<close> over a
  parent's children is \<open>{0,...,k-1}\<close>", and a well-formed tree: its node ids are distinct and
  sibling order has no gaps.\<close>

definition gapless :: "game_tree \<Rightarrow> bool" where
  "gapless t = (\<forall>p. mset (map order_index (children_of t p)) = mset [0..<length (children_of t p)])"

definition well_formed :: "game_tree \<Rightarrow> bool" where
  "well_formed t = (distinct (map node_id (nodes t)) \<and> gapless t)"

text \<open>Examples: the empty game (a root only), and a move application that accepts every
  move and records it in the position.\<close>

definition root_only :: game_tree where
  "root_only =
     \<lparr>nodes = [\<lparr>node_id = 0, parent_id = None, order_index = 0, move_usi = None,
                 position_sfen = ''startpos'', node_comment = []\<rparr>],
      root_node_id = 0, current_node_id = 0\<rparr>"

definition append_move :: "string \<Rightarrow> string \<Rightarrow> string option" where
  "append_move sfen m = Some (sfen @ '' '' @ m)"

text \<open>Two moves from the root, the first one played again in other letter case, then the
  two children swapped.\<close>

definition sample_ops :: "tree_op list" where
  "sample_ops = [PlayMove 0 ''7g7f'', PlayMove 0 ''2g2f'', PlayMove 0 '' 7G7F'', ReorderChildren 0 [2, 1]]"

definition one_move_tree :: game_tree where
  "one_move_tree =
     root_only\<lparr>nodes := nodes root_only @ [new_child root_only 0 ''7g7f'' ''startpos 7g7f''],
               current_node_id := 1\<rparr>"

section \<open>The analysis coordinator's emission cadence\<close>

text \<open>
  Modelled from the spec: the Analysis Coordinator, which coalesces the engine's \<^verbatim>\<open>info\<close>
  updates into \<^verbatim>\<open>analysis:update\<close> events, runs on the server, and the server's code is not
  among the sources at hand; only the client that receives the events is. The definitions
  of this section follow section 4.4 ("Emission cadence") and the design notes: the
  coalescer keeps a dirty flag, set by every raw update and cleared by a flush, and a timer
  tick flushes when the flag is set and the last flush is long enough ago: 500 ms during
  the first 5000 ms of the search, 1000 ms after that. Time is discrete: every event
  carries the milliseconds elapsed since the search started. \<open>emitted\<close> lists the
  \<^verbatim>\<open>elapsed_ms\<close> of the events sent so far, oldest first.
\<close>

datatype coord_event = Info nat | Tick nat

record coalescer =
  dirty :: bool
  last_flush :: "nat option"
  emitted :: "nat list"

definition flush_interval :: "nat \<Rightarrow> nat" where
  "flush_interval elapsed = (if elapsed < 5000 then 500 else 1000)"

fun coord_step :: "coalescer \<Rightarrow> coord_event \<Rightarrow> coalescer" where
  "coord_step c (Info e) = c\<lparr>dirty := True\<rparr>"
| "coord_step c (Tick e) =
     (if dirty c \<and> (case last_flush c of None \<Rightarrow> True | Some l \<Rightarrow> l + flush_interval e \<le> e)
      then c\<lparr>dirty := False, last_flush := Some e, emitted := emitted c @ [e]\<rparr>
      else c)"

definition search_start :: coalescer where
  "search_start = \<lparr>dirty = False, last_flush = None, emitted = []\<rparr>"

definition coord_run :: "coord_event list \<Rightarrow> coalescer" where
  "coord_run evs = foldl coord_step search_start evs"

text \<open>The bound of the claim on two consecutive emissions at \<open>a\<close> and then \<open>b\<close>.\<close>

definition cadence_ok :: "nat \<Rightarrow> nat \<Rightarrow> bool" where
  "cadence_ok a b = (a + 500 \<le> b \<and> (5000 \<le> b \<longrightarrow> a + 1000 \<le> b))"

text \<open>An example search: updates and ticks before and after the 5000 ms mark.\<close>

definition sample_search :: "coord_event list" where
  "sample_search =
     [Info 0, Tick 0, Info 100, Tick 400, Tick 500, Tick 1000, Info 4900, Tick 5000,
      Info 5100, Tick 5500, Tick 6000]"

text \<open>What the coalescer maintains: it remembers its last emission, and the emissions so
  far keep the bound.\<close>

definition coord_inv :: "coalescer \<Rightarrow> bool" where
  "coord_inv c = (last_flush c = (if emitted c = [] then None else Some (last (emitted c))) \<and>
     successively cadence_ok (emitted c))"



section \<open>Properties\<close>

subsection \<open>Evaluation scores\<close>

text \<open>
  Claim C8. \<^verbatim>\<open>scoreToCpLike\<close> is total and keeps the sign of a mate score: it returns
  \<open>null\<close> for a \<open>null\<close> (or missing) line; for a line object whose \<open>score_type\<close> is
  \<open>cp\<close> it returns the numeric \<open>score_value\<close>; for \<open>mate\<close> it returns exactly
  \<open>30000\<close> when \<open>score_value \<ge> 0\<close> (zero included) and exactly \<open>-30000\<close> when
  \<open>score_value < 0\<close>; and for any line whose \<open>score_type\<close> is neither it returns \<open>null\<close>.
\<close>

theorem scoreToCpLike_cases:
  fixes kvs :: "(string \<times> json) list" and v :: real and line :: "json option"
  shows "scoreToCpLike None = None \<and> scoreToCpLike (Some JNull) = None \<and>
    (map_of kvs ''score_type'' = Some (JStr ''cp'') \<and> map_of kvs ''score_value'' = Some (JNum v)
       \<longrightarrow> scoreToCpLike (Some (JObj kvs)) = Some (Fin v)) \<and>
    (map_of kvs ''score_type'' = Some (JStr ''mate'') \<and> map_of kvs ''score_value'' = Some (JNum v)
       \<longrightarrow> scoreToCpLike (Some (JObj kvs)) = Some (Fin (if 0 \<le> v then 30000 else - 30000))) \<and>
    (get_prop line ''score_type'' \<noteq> Some (JStr ''cp'') \<and> get_prop line ''score_type'' \<noteq> Some (JStr ''mate'')
       \<longrightarrow> scoreToCpLike line = None)"
  by (simp add: scoreToCpLike_def get_prop_def number_or_def)

theorem scoreToCpLike_cases_witness:
  "scoreToCpLike (Some (JObj [(''score_type'', JStr ''cp''), (''score_value'', JNum (- 120))])) = Some (Fin (- 120)) \<and>
   scoreToCpLike (Some (JObj [(''score_type'', JStr ''mate''), (''score_value'', JNum 0)])) = Some (Fin 30000) \<and>
   scoreToCpLike (Some (JObj [(''score_type'', JStr ''mate''), (''score_value'', JNum (- 3))])) = Some (Fin (- 30000)) \<and>
   scoreToCpLike (Some (JObj [(''score_type'', JStr ''unknown''), (''score_value'', JNum 7)])) = None"
  using scoreToCpLike_cases [of "[(''score_type'', JStr ''cp''), (''score_value'', JNum (- 120))]" "- 120"]
    scoreToCpLike_cases [of "[(''score_type'', JStr ''mate''), (''score_value'', JNum 0)]" 0]
    scoreToCpLike_cases [of "[(''score_type'', JStr ''mate''), (''score_value'', JNum (- 3))]" "- 3"]
    scoreToCpLike_cases [of _ _ "Some (JObj [(''score_type'', JStr ''unknown''), (''score_value'', JNum 7)])"]
  by (simp add: get_prop_def)

subsection \<open>Drop targets\<close>

lemma nifu_scan_False:
  "nifu_scan b col ow rs = Some False \<Longrightarrow> r \<in> set rs \<Longrightarrow> board_at b r col = Some (Occupied p)
   \<Longrightarrow> \<not> (owner p = ow \<and> piece p = ''pawn'')"
  by (induction rs) (auto split: option.splits cell.splits if_splits)

lemma drop_scan_legal:
  "drop_scan b t ow sqs out0 = Some out \<Longrightarrow> set sqs \<subseteq> {0..<9} \<times> {0..<9} \<Longrightarrow> sq \<in> set out
   \<Longrightarrow> sq \<in> set out0 \<or> legal_drop b t ow sq"
proof (induction sqs arbitrary: out0)
  case Nil
  then show ?case by simp
next
  case (Cons a sqs)
  obtain r c where a: "a = (r, c)" by (cases a)
  from Cons.prems(2) a have rc: "r < 9" "c < 9" and sub: "set sqs \<subseteq> {0..<9} \<times> {0..<9}" by auto
  show ?case
  proof (cases "board_at b r c")
    case None
    with Cons.prems(1) a show ?thesis by simp
  next
    case (Some cl)
    show ?thesis
    proof (cases cl)
      case Null
      show ?thesis
      proof (cases "if t = ''pawn'' then wouldCreateNifu b r c ow else Some False")
        case None
        with Cons.prems(1) a Some Null show ?thesis by simp
      next
        case (Some nf)
        note nf = this
        show ?thesis
        proof (cases "nf \<or> isDeadEndDrop t r ow")
          case True
          with Cons.prems(1) a \<open>board_at b r c = Some cl\<close> Null nf
          have "drop_scan b t ow sqs out0 = Some out" by (auto split: if_splits bool.splits)
          from Cons.IH[OF this sub Cons.prems(3)] show ?thesis .
        next
          case False
          with Cons.prems(1) a \<open>board_at b r c = Some cl\<close> Null nf
          have "drop_scan b t ow sqs (out0 @ [(r, c)]) = Some out" by (auto split: if_splits bool.splits)
          from Cons.IH[OF this sub Cons.prems(3)]
          have "sq \<in> set out0 \<or> sq = (r, c) \<or> legal_drop b t ow sq" by auto
          moreover have "legal_drop b t ow (r, c)"
          proof -
            have nif: "t = ''pawn'' \<Longrightarrow> nifu_scan b c ow [0..<9] = Some False"
              using nf False by (simp add: wouldCreateNifu_def)
            have "t = ''pawn'' \<Longrightarrow> r' < 9 \<Longrightarrow> board_at b r' c = Some (Occupied p)
                 \<Longrightarrow> \<not> (owner p = ow \<and> piece p = ''pawn'')" for r' p
              using nifu_scan_False[OF nif, of r' p] by simp
            moreover have "\<not> isDeadEndDrop t r ow" using False by simp
            ultimately show ?thesis
              using rc \<open>board_at b r c = Some cl\<close> Null
              unfolding legal_drop_def isDeadEndDrop_def
              by (auto split: if_splits)
          qed
          ultimately show ?thesis by auto
        qed
      qed
    next
      case Undefined
      with Cons.prems(1) a Some have "drop_scan b t ow sqs out0 = Some out" by simp
      from Cons.IH[OF this sub Cons.prems(3)] show ?thesis .
    next
      case (Occupied p)
      with Cons.prems(1) a Some have "drop_scan b t ow sqs out0 = Some out" by simp
      from Cons.IH[OF this sub Cons.prems(3)] show ?thesis .
    qed
  qed
qed

text \<open>
  Claim C9. Every square that \<^verbatim>\<open>getDropMoves(board, pieceType, owner)\<close> returns is a legal
  drop target for the normalized piece type: the square is empty; for a pawn, no unpromoted
  pawn of the same owner stands in that column; and the square is not on a dead-end rank
  (the last rank for a pawn or lance, the last two for a knight).
\<close>

theorem getDropMoves_legal:
  "getDropMoves normalizeDropPieceType b pieceType ow = Some out \<Longrightarrow> sq \<in> set out
   \<Longrightarrow> legal_drop b (baseType normalizeDropPieceType pieceType) ow sq"
  using drop_scan_legal[of b "baseType normalizeDropPieceType pieceType" ow
      "List.product [0..<9] [0..<9]" "[]" out sq]
  by (auto simp: getDropMoves_def)

theorem getDropMoves_legal_witness:
  "(5, 4) \<in> set (the (getDropMoves (\<lambda>t. Some t) sample_board ''pawn'' ''sente'')) \<and>
   (6, 2) \<notin> set (the (getDropMoves (\<lambda>t. Some t) sample_board ''pawn'' ''sente'')) \<and>
   legal_drop sample_board ''pawn'' ''sente'' (5, 4)"
proof -
  have e: "getDropMoves (\<lambda>t. Some t) sample_board ''pawn'' ''sente'' =
      Some (the (getDropMoves (\<lambda>t. Some t) sample_board ''pawn'' ''sente''))"
    by code_simp
  have m: "(5, 4) \<in> set (the (getDropMoves (\<lambda>t. Some t) sample_board ''pawn'' ''sente''))"
    by code_simp
  have n: "(6, 2) \<notin> set (the (getDropMoves (\<lambda>t. Some t) sample_board ''pawn'' ''sente''))"
    by code_simp
  from getDropMoves_legal [OF e m] m n show ?thesis by (simp add: baseType_def)
qed

text \<open>On a 9 by 9 board the scan never reads outside the board, so it always returns.\<close>

lemma nifu_scan_total: "wf_board b \<Longrightarrow> set rs \<subseteq> {0..<9} \<Longrightarrow> \<exists>x. nifu_scan b col ow rs = Some x"
  by (induction rs) (auto simp: board_at_def wf_board_def list_all_iff split: option.splits cell.splits)

lemma drop_scan_total:
  "wf_board b \<Longrightarrow> set sqs \<subseteq> {0..<9} \<times> {0..<9} \<Longrightarrow> \<exists>out. drop_scan b t ow sqs out0 = Some out"
proof (induction sqs arbitrary: out0)
  case Nil
  then show ?case by simp
next
  case (Cons a sqs)
  obtain r c where a: "a = (r, c)" by (cases a)
  from Cons.prems a have "r < 9" and sub: "set sqs \<subseteq> {0..<9} \<times> {0..<9}" by auto
  then have "\<exists>cl. board_at b r c = Some cl" using Cons.prems(1) by (simp add: board_at_def wf_board_def)
  moreover have "\<exists>x. wouldCreateNifu b r c ow = Some x"
    using nifu_scan_total[OF Cons.prems(1), of "[0..<9]" c ow] by (simp add: wouldCreateNifu_def)
  ultimately show ?case using Cons.IH[OF Cons.prems(1) sub] a
    by (auto split: option.splits cell.splits bool.splits)
qed


lemma getDropMoves_total:
  "wf_board b \<Longrightarrow> \<exists>out. getDropMoves normalizeDropPieceType b pieceType ow = Some out"
  unfolding getDropMoves_def by (rule drop_scan_total) auto

subsection \<open>Session tokens\<close>

text \<open>The handlers keep \<open>tokens_ok\<close>: it holds at start-up and after every event.\<close>

lemma or_else_null: "or_else v JNull = JNull \<or> truthy (Some (or_else v JNull))"
  by (cases v) (auto simp: or_else_def)

lemma sendWs_session [simp]:
  "sessionId (sendWs ty pl s) = sessionId s" "ownerToken (sendWs ty pl s) = ownerToken s"
  "isOwner (sendWs ty pl s) = isOwner s"
  by (simp_all add: sendWs_def)

lemma toast_session [simp]:
  "sessionId (toast fmt l m s) = sessionId s" "ownerToken (toast fmt l m s) = ownerToken s"
  "isOwner (toast fmt l m s) = isOwner s"
  by (simp_all add: toast_def)

lemma sync_session [simp]:
  "sessionId (syncAnalysisFromGame s) = sessionId s" "ownerToken (syncAnalysisFromGame s) = ownerToken s"
  "isOwner (syncAnalysisFromGame s) = isOwner s"
  by (simp_all add: syncAnalysisFromGame_def Let_def)

lemma tokens_ok_sendWs [simp]: "tokens_ok (sendWs ty pl s) = tokens_ok s"
  by (simp add: tokens_ok_def)

lemma tokens_ok_toast [simp]: "tokens_ok (toast fmt l m s) = tokens_ok s"
  by (simp add: tokens_ok_def)

lemma tokens_ok_drop [simp]: "tokens_ok (drop_session s)"
  by (simp add: tokens_ok_def drop_session_def)

lemma granted_session:
  "sessionId (on_session_granted fmt pl s) = or_else (get_prop (Some pl) ''session_id'') JNull"
  "ownerToken (on_session_granted fmt pl s) = or_else (get_prop (Some pl) ''owner_token'') JNull"
  "isOwner (on_session_granted fmt pl s) = True"
  unfolding on_session_granted_def Let_def
  by (simp_all split: option.split)

lemma tokens_ok_granted: "tokens_ok (on_session_granted fmt pl s)"
  using or_else_null[of "get_prop (Some pl) ''session_id''"] or_else_null[of "get_prop (Some pl) ''owner_token''"]
  by (simp add: tokens_ok_def granted_session)

lemma update_session [simp]:
  "sessionId (on_analysis_update pl s) = sessionId s" "ownerToken (on_analysis_update pl s) = ownerToken s"
  "isOwner (on_analysis_update pl s) = isOwner s"
  unfolding on_analysis_update_def Let_def by (simp_all split: option.split)

lemma stopped_session [simp]:
  "sessionId (on_analysis_stopped fmt pl s) = sessionId s" "ownerToken (on_analysis_stopped fmt pl s) = ownerToken s"
  "isOwner (on_analysis_stopped fmt pl s) = isOwner s"
  unfolding on_analysis_stopped_def Let_def by simp_all

lemma tokens_ok_update [simp]: "tokens_ok (on_analysis_update pl s) = tokens_ok s"
  by (simp add: tokens_ok_def)

lemma tokens_ok_stopped [simp]: "tokens_ok (on_analysis_stopped fmt pl s) = tokens_ok s"
  by (simp add: tokens_ok_def)

lemma tokens_ok_game_state [simp]: "tokens_ok (on_game_state pl s) = tokens_ok s"
  by (simp add: tokens_ok_def on_game_state_def)

lemma tokens_ok_stale [simp]: "tokens_ok (on_session_stale fmt s)"
  by (simp add: tokens_ok_def on_session_stale_def Let_def drop_session_def)

lemma tokens_ok_kicked [simp]: "tokens_ok (on_session_kicked fmt s)"
  by (simp add: on_session_kicked_def)

lemma tokens_ok_busy [simp]: "tokens_ok (on_session_busy s)"
  by (simp add: tokens_ok_def on_session_busy_def drop_session_def)

lemma tokens_ok_message: "tokens_ok s \<Longrightarrow> tokens_ok (on_message fmt msg s)"
  by (simp add: on_message_def Let_def on_toast_def tokens_ok_granted)

lemma tokens_ok_step: "tokens_ok (step fmt s ev)" if "tokens_ok s"
proof (cases ev)
  case WsClose
  with that show ?thesis by (simp add: tokens_ok_def drop_session_def)
qed (use that in \<open>simp_all add: tokens_ok_message\<close>, simp_all add: tokens_ok_def)

lemma tokens_ok_foldl: "tokens_ok s \<Longrightarrow> tokens_ok (foldl (step fmt) s evs)"
  by (induction evs arbitrary: s) (auto simp: tokens_ok_step)

lemma tokens_ok_run: "tokens_ok (run fmt th evs)"
  unfolding run_def by (rule tokens_ok_foldl) (simp add: tokens_ok_def initial_state_def)

text \<open>
  Claim C1. Whenever \<^verbatim>\<open>sendWs(type, payload)\<close> is called in a state the client can reach in
  which \<^verbatim>\<open>state.sessionId\<close> and \<^verbatim>\<open>state.ownerToken\<close> are both non-null and the socket is open,
  exactly one frame is sent, and it carries the given type and payload together with
  \<open>session_id = state.sessionId\<close> and \<open>owner_token = state.ownerToken\<close>.
\<close>

theorem sendWs_carries_tokens:
  assumes "s = run fmt th evs" and "sessionId s \<noteq> JNull" and "ownerToken s \<noteq> JNull"
    and "ws s = Some OPEN"
  shows "sent (sendWs ty pl s) =
           sent s @ [\<lparr>frame_type = ty, payload = pl,
                      session_id = Some (sessionId s), owner_token = Some (ownerToken s)\<rparr>]"
  using assms tokens_ok_run[of fmt th evs] by (auto simp: tokens_ok_def sendWs_def)

theorem sendWs_carries_tokens_witness:
  "sent (sendWs ''node:jump'' (JObj [(''node_id'', JStr ''n1'')])
          (run fmt_digits True [Connect, WsOpen, WsMessage (granted_frame (JNum 3))])) =
     [\<lparr>frame_type = ''node:jump'', payload = JObj [(''node_id'', JStr ''n1'')],
       session_id = Some (JStr ''S1''), owner_token = Some (JStr ''T1'')\<rparr>]"
proof -
  let ?s = "run fmt_digits True [Connect, WsOpen, WsMessage (granted_frame (JNum 3))]"
  have a: "sessionId ?s = JStr ''S1''" and b: "ownerToken ?s = JStr ''T1''"
    and c: "ws ?s = Some OPEN" and d: "sent ?s = []"
    by code_simp+
  have "sessionId ?s \<noteq> JNull" "ownerToken ?s \<noteq> JNull" using a b by simp_all
  from sendWs_carries_tokens [OF refl this c, of "''node:jump''" "JObj [(''node_id'', JStr ''n1'')]"]
  show ?thesis using a b d by simp
qed

text \<open>
  Claim C2 says that a client that is not the owner never sends a message of an
  owner-authored type (\<^verbatim>\<open>game:*\<close>, \<^verbatim>\<open>node:*\<close>, \<^verbatim>\<open>analysis:*\<close>). The client gates the board on
  \<^verbatim>\<open>state.isOwner\<close> (\<^verbatim>\<open>selectBoardSquare\<close>, \<^verbatim>\<open>selectHand\<close>, \<^verbatim>\<open>onPointerDown\<close>) and disables the
  navigation, save and analysis controls for a non-owner, but \<^verbatim>\<open>sendWs\<close> and the listener
  of the new-game button have no such test. The code evaluated in two states where the
  client is not the owner, once after \<^verbatim>\<open>session:busy\<close> with the take-over dialog dismissed
  and once after a grant revoked by \<^verbatim>\<open>session:kicked\<close>: a click on the new-game button
  sends \<^verbatim>\<open>game:new\<close>, without tokens.
\<close>

theorem non_owner_sends_owner_type:
  "\<not> isOwner (run fmt_digits True [Connect, WsOpen, WsMessage busy_frame, ModalAnswer None]) \<and>
   owner_authored ''game:new'' \<and>
   sent (step fmt_digits (run fmt_digits True [Connect, WsOpen, WsMessage busy_frame, ModalAnswer None])
           NewGameClick) =
     [\<lparr>frame_type = ''game:new'', payload = JObj [], session_id = None, owner_token = None\<rparr>] \<and>
   isOwner (run fmt_digits True [Connect, WsOpen, WsMessage (granted_frame (JNum 3))]) \<and>
   \<not> isOwner (run fmt_digits True [Connect, WsOpen, WsMessage (granted_frame (JNum 3)),
                                      WsMessage kicked_frame]) \<and>
   sent (step fmt_digits (run fmt_digits True [Connect, WsOpen, WsMessage (granted_frame (JNum 3)),
                                                WsMessage kicked_frame])
           NewGameClick) =
     [\<lparr>frame_type = ''game:new'', payload = JObj [], session_id = None, owner_token = None\<rparr>]"
  by code_simp

text \<open>
  What does hold whenever the client is not the owner: its \<^verbatim>\<open>sessionId\<close> and \<^verbatim>\<open>ownerToken\<close>
  are \<open>null\<close>, and whatever \<^verbatim>\<open>sendWs\<close> sends in that state carries neither \<open>session_id\<close>
  nor \<open>owner_token\<close>.
\<close>

lemma non_owner_sends_without_tokens:
  assumes "s = run fmt th evs" and "\<not> isOwner s"
  shows "sessionId s = JNull \<and> ownerToken s = JNull \<and>
         (sent (sendWs ty pl s) = sent s \<or>
          sent (sendWs ty pl s) =
            sent s @ [\<lparr>frame_type = ty, payload = pl, session_id = None, owner_token = None\<rparr>])"
  using assms tokens_ok_run[of fmt th evs] by (auto simp: tokens_ok_def sendWs_def)

subsection \<open>MultiPV\<close>

text \<open>
  Claim C5 says that the stored MultiPV always lies in 1..5 and that every
  \<^verbatim>\<open>analysis:set_multipv\<close> carries such a value, whatever the server supplies. The code
  evaluated where the game's stored setting is the string \<open>abc\<close>: after \<^verbatim>\<open>game:state\<close> the
  stored value is \<open>NaN\<close>; after \<^verbatim>\<open>session:granted\<close> the client sends \<^verbatim>\<open>analysis:set_multipv\<close>
  with \<open>NaN\<close>, which reaches the wire as \<open>null\<close>. The grant handler guards its own reading
  with \<^verbatim>\<open>|| 1\<close>; \<^verbatim>\<open>syncAnalysisFromGame\<close>, which overwrites it, does not.
\<close>

theorem multipv_not_a_number:
  "multipv (analysis (run fmt_digits True [Connect, WsOpen, WsMessage (game_state_frame (JStr ''abc''))])) = NaN \<and>
   sent (run fmt_digits True [Connect, WsOpen, WsMessage (granted_frame (JStr ''abc''))]) =
     [\<lparr>frame_type = ''analysis:set_multipv'', payload = JObj [(''multipv'', JNull)],
       session_id = Some (JStr ''S1''), owner_token = Some (JStr ''T1'')\<rparr>]"
  by code_simp

text \<open>What does hold: the stored value is in 1..5 unless the coercion gave \<open>NaN\<close>.\<close>

lemma clamp_1_5: "clamp n 1 5 = NaN \<and> n = NaN \<or> (\<exists>v. clamp n 1 5 = Fin v \<and> 1 \<le> v \<and> v \<le> 5)"
  by (cases n) (auto simp: clamp_def)

lemma game_state_multipv:
  "multipv (analysis (on_game_state pl s)) = NaN \<or>
   (\<exists>v. multipv (analysis (on_game_state pl s)) = Fin v \<and> 1 \<le> v \<and> v \<le> 5)"
  using clamp_1_5 by (auto simp: on_game_state_def syncAnalysisFromGame_def Let_def)

lemma granted_multipv:
  "multipv (analysis (on_session_granted fmt pl s)) = NaN \<or>
   (\<exists>v. multipv (analysis (on_session_granted fmt pl s)) = Fin v \<and> 1 \<le> v \<and> v \<le> 5)"
proof -
  have sw: "multipv (analysis (sendWs ty p s')) = multipv (analysis s')" for ty p s'
    by (simp add: sendWs_def)
  have sy: "multipv (analysis (syncAnalysisFromGame s')) = NaN \<or>
   (\<exists>v. multipv (analysis (syncAnalysisFromGame s')) = Fin v \<and> 1 \<le> v \<and> v \<le> 5)" for s'
    using clamp_1_5 by (auto simp: syncAnalysisFromGame_def Let_def)
  show ?thesis unfolding on_session_granted_def Let_def
    by (simp add: sw sy)
qed

subsection \<open>Engine errors\<close>

text \<open>The matcher agrees with the reading of the pattern as "one of the words occurs".\<close>

lemma match_here_prefix: "match_here p cs \<longleftrightarrow> prefix (map canonicalize p) (map canonicalize cs)"
  by (induction p cs rule: match_here.induct) auto

lemma engine_error_test_iff: "engine_error_test r \<longleftrightarrow> mentions_engine_error r"
proof (induction r)
  case Nil
  show ?case
    by (simp add: mentions_engine_error_def match_here_prefix list_ex_iff)
next
  case (Cons c cs)
  show ?case
    using Cons.IH
    by (auto simp: mentions_engine_error_def match_here_prefix list_ex_iff sublist_Cons_right)
qed

lemma trim_toast_error: "trim ''toast error'' = ''toast error''"
  by code_simp

text \<open>
  Claim C7. For an \<^verbatim>\<open>analysis:stopped\<close> message whose reason is a string that mentions an
  engine-error kind (\<open>failed\<close>, \<open>timeout\<close>, \<open>not configured\<close>, \<open>exited\<close> or \<open>error\<close>, in
  any letter case), the handler sets the status text to that reason and, on a page with a
  toast host, appends one toast of level \<open>error\<close> with the reason as its text. For any
  other reason it sets the status text (to the reason, or to \<open>stopped\<close> when the reason is
  missing or empty) and appends no toast.
\<close>

theorem analysis_stopped_toast:
  fixes fmt :: numfmt and pl :: json and s :: client and r :: string
  shows "(get_prop (Some pl) ''reason'' = Some (JStr r) \<and> mentions_engine_error r \<and> toastHost s \<longrightarrow>
            statusText (analysis (on_analysis_stopped fmt pl s)) = r \<and>
            toasts (on_analysis_stopped fmt pl s) = toasts s @ [(''toast error'', r)]) \<and>
         (\<not> mentions_engine_error (js_String fmt (or_else (get_prop (Some pl) ''reason'') (JStr []))) \<longrightarrow>
            statusText (analysis (on_analysis_stopped fmt pl s)) =
              js_String fmt (or_else (get_prop (Some pl) ''reason'') (JStr ''stopped'')) \<and>
            toasts (on_analysis_stopped fmt pl s) = toasts s)"
proof (intro conjI impI)
  assume a: "get_prop (Some pl) ''reason'' = Some (JStr r) \<and> mentions_engine_error r \<and> toastHost s"
  then have ne: "r \<noteq> []"
    by (auto simp: mentions_engine_error_def engine_error_kinds_def)
  with a show "statusText (analysis (on_analysis_stopped fmt pl s)) = r"
    by (simp add: on_analysis_stopped_def Let_def or_else_def toast_def engine_error_test_iff)
  from a ne show "toasts (on_analysis_stopped fmt pl s) = toasts s @ [(''toast error'', r)]"
    by (simp add: on_analysis_stopped_def Let_def or_else_def toast_def engine_error_test_iff trim_toast_error)
next
  assume "\<not> mentions_engine_error (js_String fmt (or_else (get_prop (Some pl) ''reason'') (JStr [])))"
  then show "statusText (analysis (on_analysis_stopped fmt pl s)) =
              js_String fmt (or_else (get_prop (Some pl) ''reason'') (JStr ''stopped''))"
    and "toasts (on_analysis_stopped fmt pl s) = toasts s"
    by (simp_all add: on_analysis_stopped_def Let_def engine_error_test_iff)
qed

lemma mentions_exited: "mentions_engine_error ''Engine EXITED (code 1)''"
  unfolding engine_error_test_iff[symmetric] by code_simp

lemma not_mentions_disabled: "\<not> mentions_engine_error ''disabled''"
  unfolding engine_error_test_iff[symmetric] by code_simp

theorem analysis_stopped_toast_witness:
  "statusText (analysis (on_analysis_stopped fmt_digits (JObj [(''reason'', JStr ''Engine EXITED (code 1)'')]) (initial_state True))) = ''Engine EXITED (code 1)'' \<and>
   toasts (on_analysis_stopped fmt_digits (JObj [(''reason'', JStr ''Engine EXITED (code 1)'')]) (initial_state True)) = [(''toast error'', ''Engine EXITED (code 1)'')] \<and>
   statusText (analysis (on_analysis_stopped fmt_digits (JObj [(''reason'', JStr ''disabled'')]) (initial_state True))) = ''disabled'' \<and>
   toasts (on_analysis_stopped fmt_digits (JObj [(''reason'', JStr ''disabled'')]) (initial_state True)) = []"
  using analysis_stopped_toast [of "JObj [(''reason'', JStr ''Engine EXITED (code 1)'')]" "''Engine EXITED (code 1)''" "initial_state True" fmt_digits]
    analysis_stopped_toast [of "JObj [(''reason'', JStr ''disabled'')]" "''x''" "initial_state True" fmt_digits]
    mentions_exited not_mentions_disabled
  by (simp add: get_prop_def or_else_def initial_state_def)

subsection \<open>Navigation to the end of the line\<close>

text \<open>A snapshot lists finitely many entries, so its parent-child relation is finite, and
  each turn of the loop follows one of its edges.\<close>

lemma finite_entries: "finite {k. children_entry ci k \<noteq> None}"
proof (cases ci)
  case None
  then show ?thesis by (simp add: children_entry_def)
next
  case (Some v)
  show ?thesis
  proof (cases v)
    case (JObj kvs)
    have "{k. children_entry ci k \<noteq> None} = dom (map_of kvs)"
      using Some JObj by (auto simp: children_entry_def)
    then show ?thesis by (simp add: finite_dom_map_of)
  next
    case (JArr xs)
    have "{k. children_entry ci k \<noteq> None} \<subseteq> nat_digits ` {0..<length xs}"
      using Some JArr by (auto simp: children_entry_def find_Some_iff split: option.splits)
    then show ?thesis by (rule finite_subset) simp
  qed (use Some in \<open>simp_all add: children_entry_def\<close>)
qed

lemma finite_child_rel: "finite (child_rel fmt g)"
proof -
  let ?ci = "get_prop (Some g) ''children_index''"
  let ?K = "{k. children_entry ?ci k \<noteq> None}"
  have "child_rel fmt g \<subseteq>
        (\<Union>k \<in> ?K. (\<lambda>c. (k, js_String fmt c)) ` (case children_entry ?ci k of Some (JArr cs) \<Rightarrow> set cs | _ \<Rightarrow> {}))"
    by (auto simp: child_rel_def)
  moreover have "finite (\<Union>k \<in> ?K. (\<lambda>c. (k, js_String fmt c)) ` (case children_entry ?ci k of Some (JArr cs) \<Rightarrow> set cs | _ \<Rightarrow> {}))"
    by (rule finite_UN_I[OF finite_entries]) (auto split: option.splits json.splits)
  ultimately show ?thesis by (rule finite_subset)
qed

lemma first_child_in_rel:
  "truthy (Some (firstChildId fmt g cur)) \<Longrightarrow>
   (js_String fmt cur, js_String fmt (firstChildId fmt g cur)) \<in> child_rel fmt g"
  by (auto simp: firstChildId_def child_rel_def split: option.splits json.splits list.splits)

text \<open>
  Claim C10. For every game snapshot whose \<^verbatim>\<open>children_index\<close> relation is acyclic (it is
  always finite), the loop of the end button terminates from any current node; the node it
  stops at is reached from the current node along first children and has no first child:
  \<^verbatim>\<open>firstChildId\<close> of it is falsy, and is \<open>null\<close> when the child ids of the snapshot are
  non-empty strings.
\<close>

theorem end_loop_terminates:
  assumes "acyclic (child_rel fmt g)"
  shows "\<exists>r. end_loop fmt g cur = Some r \<and> \<not> truthy (Some (firstChildId fmt g r)) \<and>
             (cur, r) \<in> (first_child_step fmt g)\<^sup>* \<and>
             (child_ids_are_names g \<longrightarrow> firstChildId fmt g r = JNull)"
proof -
  have wf: "wf ((child_rel fmt g)\<inverse>)"
    using finite_child_rel assms by (rule finite_acyclic_wf_converse)
  have nm: "child_ids_are_names g \<Longrightarrow> \<not> truthy (Some (firstChildId fmt g r)) \<Longrightarrow> firstChildId fmt g r = JNull" for r
    unfolding child_ids_are_names_def firstChildId_def
    by (auto split: option.splits json.splits list.splits) (metis list.set_intros(1) truthy.simps(5))
  have "\<forall>cur. js_String fmt cur = k \<longrightarrow>
          (\<exists>r. end_loop fmt g cur = Some r \<and> \<not> truthy (Some (firstChildId fmt g r)) \<and>
             (cur, r) \<in> (first_child_step fmt g)\<^sup>*)" for k
    using wf
  proof (induction k rule: wf_induct_rule)
    case (less k)
    show ?case
    proof (intro allI impI)
      fix cur assume k: "js_String fmt cur = k"
      show "\<exists>r. end_loop fmt g cur = Some r \<and> \<not> truthy (Some (firstChildId fmt g r)) \<and>
             (cur, r) \<in> (first_child_step fmt g)\<^sup>*"
      proof (cases "truthy (Some (firstChildId fmt g cur))")
        case False
        then have "end_loop fmt g cur = Some cur" by (subst end_loop.simps) simp
        with False show ?thesis by auto
      next
        case True
        let ?n = "firstChildId fmt g cur"
        from first_child_in_rel[OF True] k have "(js_String fmt ?n, k) \<in> (child_rel fmt g)\<inverse>" by simp
        from less.IH[OF this] obtain r where r: "end_loop fmt g ?n = Some r"
          "\<not> truthy (Some (firstChildId fmt g r))" "(?n, r) \<in> (first_child_step fmt g)\<^sup>*" by blast
        from True have "end_loop fmt g cur = end_loop fmt g ?n" by (subst end_loop.simps) simp
        moreover from True have "(cur, ?n) \<in> first_child_step fmt g" by (simp add: first_child_step_def)
        ultimately show ?thesis using r by (auto intro: converse_rtrancl_into_rtrancl)
      qed
    qed
  qed
  then show ?thesis using nm by blast
qed

lemma line_game_acyclic: "acyclic (child_rel fmt line_game)"
proof -
  have "child_rel fmt line_game \<subseteq> measure length"
    by (auto simp: child_rel_def line_game_def get_prop_def children_entry_def split: if_splits)
  then have "wf (child_rel fmt line_game)" by (rule wf_subset[rotated]) simp
  then show ?thesis by (rule wf_acyclic)
qed

theorem end_loop_terminates_witness:
  "end_loop fmt_digits line_game (JStr ''a'') = Some (JStr ''ccc'') \<and>
   firstChildId fmt_digits line_game (JStr ''ccc'') = JNull \<and>
   (JStr ''a'', JStr ''ccc'') \<in> (first_child_step fmt_digits line_game)\<^sup>*"
proof -
  have e: "end_loop fmt_digits line_game (JStr ''a'') = Some (JStr ''ccc'')"
    by code_simp
  have n: "child_ids_are_names line_game"
    by (auto simp: child_ids_are_names_def line_game_def get_prop_def children_entry_def split: if_splits)
  from end_loop_terminates [OF line_game_acyclic, of fmt_digits "JStr ''a''"] e n
  show ?thesis by auto
qed

text \<open>Hence the click listener itself returns.\<close>

lemma end_loop_returns:
  assumes "acyclic (child_rel fmt g)"
  shows "\<exists>r. end_loop fmt g cur = Some r"
proof -
  have wf: "wf ((child_rel fmt g)\<inverse>)"
    using finite_child_rel assms by (rule finite_acyclic_wf_converse)
  have "\<forall>cur. js_String fmt cur = k \<longrightarrow> (\<exists>r. end_loop fmt g cur = Some r)" for k
    using wf
  proof (induction k rule: wf_induct_rule)
    case (less k)
    show ?case
    proof (intro allI impI)
      fix cur assume k: "js_String fmt cur = k"
      show "\<exists>r. end_loop fmt g cur = Some r"
      proof (cases "truthy (Some (firstChildId fmt g cur))")
        case False
        then show ?thesis by (subst end_loop.simps) simp
      next
        case True
        from first_child_in_rel[OF True] k
        have "(js_String fmt (firstChildId fmt g cur), k) \<in> (child_rel fmt g)\<inverse>" by simp
        from less.IH[OF this] True show ?thesis by (subst end_loop.simps) simp
      qed
    qed
  qed
  then show ?thesis by blast
qed

lemma btnEnd_click_returns:
  assumes "acyclic (child_rel fmt (game s))"
  shows "\<exists>s'. btnEnd_click fmt s = Some s'"
proof (cases "get_prop (Some (game s)) ''current_node_id''")
  case None
  then show ?thesis by (simp add: btnEnd_click_def)
next
  case (Some cur)
  from end_loop_returns [OF assms, of cur] obtain r where "end_loop fmt (game s) cur = Some r" ..
  with Some show ?thesis by (simp add: btnEnd_click_def)
qed

subsection \<open>The game tree\<close>

lemma length_children [simp]: "length (children_of t p) = length (siblings t p)"
  by (simp add: children_of_def)

lemma set_children [simp]: "set (children_of t p) = set (siblings t p)"
  by (simp add: children_of_def)

lemma find_append: "find P (xs @ ys) = (case find P xs of None \<Rightarrow> find P ys | Some x \<Rightarrow> Some x)"
  by (induction xs) auto

lemma find_unique:
  assumes "x \<in> set xs" and "P x" and "\<forall>y \<in> set xs. y \<noteq> x \<longrightarrow> \<not> P y"
  shows "find P xs = Some x"
  using assms
proof (induction xs)
  case Nil
  then show ?case by simp
next
  case (Cons a xs)
  show ?case
  proof (cases "a = x")
    case True
    with Cons.prems(2) show ?thesis by simp
  next
    case False
    with Cons.prems have "x \<in> set xs" and "\<not> P a" and "\<forall>y \<in> set xs. y \<noteq> x \<longrightarrow> \<not> P y"
      by auto
    with Cons.IH[OF this(1) Cons.prems(2) this(3)] show ?thesis by simp
  qed
qed

lemma play_move_hit:
  assumes "find (\<lambda>n. node_id n = p) (nodes t) = Some parent"
    and "find (same_move m) (children_of t p) = Some c"
  shows "play_move am t p m = Inr (node_id c, t\<lparr>current_node_id := node_id c\<rparr>)"
  using assms by (simp add: play_move_def)

lemma play_move_miss:
  assumes "find (\<lambda>n. node_id n = p) (nodes t) = Some parent"
    and "find (same_move m) (children_of t p) = None"
    and "am (position_sfen parent) m = Some sfen"
  shows "play_move am t p m =
     Inr (fresh_id (nodes t), t\<lparr>nodes := nodes t @ [new_child t p m sfen], current_node_id := fresh_id (nodes t)\<rparr>)"
  using assms by (simp add: play_move_def)

lemma play_move_cases:
  assumes "play_move am t p m = Inr (i, t1)"
  shows "\<exists>parent. find (\<lambda>n. node_id n = p) (nodes t) = Some parent \<and>
     ((\<exists>c. find (same_move m) (children_of t p) = Some c) \<or>
      (find (same_move m) (children_of t p) = None \<and> (\<exists>sfen. am (position_sfen parent) m = Some sfen)))"
  using assms unfolding play_move_def by (simp split: option.splits)

lemma new_child_sel [simp]:
  "node_id (new_child t p m sfen) = fresh_id (nodes t)"
  "parent_id (new_child t p m sfen) = Some p"
  "order_index (new_child t p m sfen) = length (children_of t p)"
  "move_usi (new_child t p m sfen) = Some m"
  by (simp_all add: new_child_def)

lemma siblings_after_miss:
  "siblings (t\<lparr>nodes := nodes t @ [new_child t p m sfen], current_node_id := k\<rparr>) p
     = siblings t p @ [new_child t p m sfen]"
  by (simp add: siblings_def new_child_def)

lemma same_move_new_child: "same_move m (new_child t p m sfen)"
  by (simp add: same_move_def new_child_def)

lemma second_call_after_miss:
  assumes par: "find (\<lambda>n. node_id n = p) (nodes t) = Some parent"
    and none: "find (same_move m) (children_of t p) = None"
  shows "play_move am (t\<lparr>nodes := nodes t @ [new_child t p m sfen], current_node_id := fresh_id (nodes t)\<rparr>) p m
     = Inr (fresh_id (nodes t), t\<lparr>nodes := nodes t @ [new_child t p m sfen], current_node_id := fresh_id (nodes t)\<rparr>)"
proof -
  let ?c = "new_child t p m sfen"
  let ?t1 = "t\<lparr>nodes := nodes t @ [?c], current_node_id := fresh_id (nodes t)\<rparr>"
  have par1: "find (\<lambda>n. node_id n = p) (nodes ?t1) = Some parent"
    using par by (simp add: find_append)
  have nomatch: "\<forall>y \<in> set (siblings t p). \<not> same_move m y"
    using none by (simp add: find_None_iff)
  have "find (same_move m) (children_of ?t1 p) = Some ?c"
  proof (rule find_unique)
    show "?c \<in> set (children_of ?t1 p)" by (simp add: siblings_after_miss)
    show "same_move m ?c" by (rule same_move_new_child)
    show "\<forall>y \<in> set (children_of ?t1 p). y \<noteq> ?c \<longrightarrow> \<not> same_move m y"
      using nomatch by (simp add: siblings_after_miss)
  qed
  from play_move_hit[OF par1 this, of am]
  have "play_move am ?t1 p m = Inr (node_id ?c, ?t1\<lparr>current_node_id := node_id ?c\<rparr>)" .
  moreover have "node_id ?c = fresh_id (nodes t)" by (simp add: new_child_def)
  ultimately show ?thesis by simp
qed

lemma one_match_after_miss:
  assumes none: "find (same_move m) (children_of t p) = None"
  shows "filter (same_move m)
           (children_of (t\<lparr>nodes := nodes t @ [new_child t p m sfen], current_node_id := k\<rparr>) p)
         = [new_child t p m sfen]"
proof -
  have nomatch: "filter (same_move m) (siblings t p) = []"
    using none by (simp add: find_None_iff filter_empty_conv)
  show ?thesis
    unfolding children_of_def filter_sort siblings_after_miss
    by (simp add: nomatch same_move_new_child)
qed

text \<open>
  Claim C3. \<^verbatim>\<open>play_move\<close> is idempotent on duplicates. If the parent exists and one of its
  children already has the move (after trimming and lower-casing), \<^verbatim>\<open>play_move\<close> returns that
  child's id, creates no node and leaves the parent's children as they are. And whenever a
  call succeeds, a second call with the same parent and move returns the same id and
  changes nothing; if the first call had to create the child, the parent then has exactly
  one child with that move and one child more than before.
\<close>

theorem play_move_dedup:
  "(find (\<lambda>n. node_id n = p) (nodes t) \<noteq> None \<and> find (same_move m) (children_of t p) = Some c \<longrightarrow>
      (\<exists>t'. play_move apply_move t p m = Inr (node_id c, t') \<and> nodes t' = nodes t \<and>
            children_of t' p = children_of t p \<and> current_node_id t' = node_id c)) \<and>
   (play_move apply_move t p m = Inr (i, t1) \<longrightarrow>
      play_move apply_move t1 p m = Inr (i, t1) \<and>
      (find (same_move m) (children_of t p) \<noteq> None \<longrightarrow> nodes t1 = nodes t) \<and>
      (find (same_move m) (children_of t p) = None \<longrightarrow>
         length (filter (same_move m) (children_of t1 p)) = 1 \<and>
         length (children_of t1 p) = Suc (length (children_of t p))))"
proof (rule conjI; rule impI)
  assume a: "find (\<lambda>n. node_id n = p) (nodes t) \<noteq> None \<and> find (same_move m) (children_of t p) = Some c"
  then obtain parent where par: "find (\<lambda>n. node_id n = p) (nodes t) = Some parent" by auto
  from a have fc: "find (same_move m) (children_of t p) = Some c" by simp
  have ch: "children_of (t\<lparr>current_node_id := node_id c\<rparr>) p = children_of t p"
    by (simp add: children_of_def siblings_def)
  show "\<exists>t'. play_move apply_move t p m = Inr (node_id c, t') \<and> nodes t' = nodes t \<and>
            children_of t' p = children_of t p \<and> current_node_id t' = node_id c"
    by (rule exI[of _ "t\<lparr>current_node_id := node_id c\<rparr>"]) (simp add: play_move_hit[OF par fc] ch)
next
  assume pm: "play_move apply_move t p m = Inr (i, t1)"
  from play_move_cases[OF pm] obtain parent where
    par: "find (\<lambda>n. node_id n = p) (nodes t) = Some parent"
    and alt: "(\<exists>c. find (same_move m) (children_of t p) = Some c) \<or>
      (find (same_move m) (children_of t p) = None \<and> (\<exists>sfen. apply_move (position_sfen parent) m = Some sfen))"
    by blast
  from alt show "play_move apply_move t1 p m = Inr (i, t1) \<and>
      (find (same_move m) (children_of t p) \<noteq> None \<longrightarrow> nodes t1 = nodes t) \<and>
      (find (same_move m) (children_of t p) = None \<longrightarrow>
         length (filter (same_move m) (children_of t1 p)) = 1 \<and>
         length (children_of t1 p) = Suc (length (children_of t p)))"
  proof
    assume "\<exists>c. find (same_move m) (children_of t p) = Some c"
    then obtain c where fc: "find (same_move m) (children_of t p) = Some c" ..
    from play_move_hit[OF par fc, of apply_move] pm
    have i: "i = node_id c" and t1: "t1 = t\<lparr>current_node_id := node_id c\<rparr>" by simp_all
    have par1: "find (\<lambda>n. node_id n = p) (nodes t1) = Some parent" using par by (simp add: t1)
    have fc1: "find (same_move m) (children_of t1 p) = Some c"
      using fc by (simp add: t1 children_of_def siblings_def)
    have "play_move apply_move t1 p m = Inr (node_id c, t1\<lparr>current_node_id := node_id c\<rparr>)"
      by (rule play_move_hit[OF par1 fc1])
    moreover have "t1\<lparr>current_node_id := node_id c\<rparr> = t1" by (simp add: t1)
    ultimately show ?thesis using fc i by (simp add: t1)
  next
    assume "find (same_move m) (children_of t p) = None \<and> (\<exists>sfen. apply_move (position_sfen parent) m = Some sfen)"
    then obtain sfen where none: "find (same_move m) (children_of t p) = None"
      and sf: "apply_move (position_sfen parent) m = Some sfen" by blast
    from play_move_miss[of p t parent m apply_move sfen, OF par none sf] pm
    have i: "i = fresh_id (nodes t)"
      and t1: "t1 = t\<lparr>nodes := nodes t @ [new_child t p m sfen], current_node_id := fresh_id (nodes t)\<rparr>"
      by simp_all
    have "play_move apply_move t1 p m = Inr (i, t1)"
      unfolding t1 i by (rule second_call_after_miss[OF par none])
    moreover have "length (filter (same_move m) (children_of t1 p)) = 1"
      unfolding t1 by (simp add: one_match_after_miss[OF none])
    moreover have "length (children_of t1 p) = Suc (length (children_of t p))"
      unfolding t1 by (simp add: siblings_after_miss)
    ultimately show ?thesis using none by simp
  qed
qed

theorem play_move_dedup_witness:
  "play_move append_move root_only 0 ''7g7f'' = Inr (1, one_move_tree) \<and>
   play_move append_move one_move_tree 0 ''7g7f'' = Inr (1, one_move_tree) \<and>
   length (children_of one_move_tree 0) = 1"
proof -
  have e: "play_move append_move root_only 0 ''7g7f'' = Inr (1, one_move_tree)"
    by code_simp
  have n: "find (same_move ''7g7f'') (children_of root_only 0) = None"
    by code_simp
  have k: "length (children_of root_only 0) = 0"
    by code_simp
  from play_move_dedup [where t = root_only and p = 0 and m = "''7g7f''" and apply_move = append_move
      and i = 1 and ?t1.0 = one_move_tree] e n
  show ?thesis unfolding k by simp
qed

lemma fresh_id_fold: "m \<le> fold (\<lambda>n m. max (Suc (node_id n)) m) ns m \<and>
   (\<forall>n \<in> set ns. node_id n < fold (\<lambda>n m. max (Suc (node_id n)) m) ns m)"
proof (induction ns arbitrary: m)
  case Nil
  then show ?case by simp
next
  case (Cons a ns)
  from Cons.IH[of "max (Suc (node_id a)) m"] show ?case by auto
qed

lemma fresh_id_above: "n \<in> set ns \<Longrightarrow> node_id n < fresh_id ns"
  using fresh_id_fold[of 0 ns] by (simp add: fresh_id_def)

lemma mset_children: "mset (map order_index (children_of t p)) = mset (map order_index (siblings t p))"
  by (simp add: children_of_def)

lemma gapless_siblings:
  "gapless t \<longleftrightarrow> (\<forall>p. mset (map order_index (siblings t p)) = mset [0..<length (siblings t p)])"
  by (simp only: gapless_def mset_children length_children)

lemma index_of_Cons: "index_of x (y # ys) = (if x = y then 0 else Suc (index_of x ys))"
  by (simp add: index_of_def)

lemma index_of_distinct: "distinct xs \<Longrightarrow> map (\<lambda>x. index_of x xs) xs = [0..<length xs]"
proof (induction xs)
  case Nil
  then show ?case by simp
next
  case (Cons y ys)
  have "map (\<lambda>x. index_of x (y # ys)) ys = map (\<lambda>x. Suc (index_of x ys)) ys"
    using Cons.prems by (auto simp: index_of_Cons)
  also have "\<dots> = map Suc (map (\<lambda>x. index_of x ys) ys)" by simp
  also have "\<dots> = map Suc [0..<length ys]" using Cons by simp
  finally show ?case by (simp add: index_of_Cons map_Suc_upt upt_conv_Cons del: upt_Suc)
qed

lemma index_of_permutation:
  assumes "distinct ids" and "mset ordered = mset ids"
  shows "mset (map (\<lambda>x. index_of x ordered) ids) = mset [0..<length ids]"
proof -
  have d: "distinct ordered" using assms by (metis mset_eq_imp_distinct_iff)
  have "mset (map (\<lambda>x. index_of x ordered) ids) = image_mset (\<lambda>x. index_of x ordered) (mset ids)" by simp
  also have "\<dots> = image_mset (\<lambda>x. index_of x ordered) (mset ordered)" using assms by simp
  also have "\<dots> = mset (map (\<lambda>x. index_of x ordered) ordered)" by simp
  also have "\<dots> = mset [0..<length ordered]" using index_of_distinct[OF d] by simp
  also have "length ordered = length ids" using assms(2) by (metis size_mset)
  finally show ?thesis .
qed

lemma play_move_nodes:
  assumes "play_move am t p m = Inr (i, t')"
  shows "nodes t' = nodes t \<or>
     (\<exists>sfen. nodes t' = nodes t @ [new_child t p m sfen])"
  using assms unfolding play_move_def
  by (auto split: option.splits)

lemma well_formed_play_move:
  assumes "well_formed t" and "play_move am t p m = Inr (i, t')"
  shows "well_formed t'"
proof -
  from play_move_nodes[OF assms(2)] show ?thesis
  proof
    assume "nodes t' = nodes t"
    then have "siblings t' q = siblings t q" for q by (simp add: siblings_def)
    with assms(1) \<open>nodes t' = nodes t\<close> show ?thesis by (simp add: well_formed_def gapless_siblings)
  next
    assume "\<exists>sfen. nodes t' = nodes t @ [new_child t p m sfen]"
    then obtain sfen where n: "nodes t' = nodes t @ [new_child t p m sfen]" ..
    have "fresh_id (nodes t) \<notin> node_id ` set (nodes t)"
      using fresh_id_above[of _ "nodes t"] by fastforce
    then have d: "distinct (map node_id (nodes t'))"
      using assms(1) by (simp add: well_formed_def n)
    have g: "mset (map order_index (siblings t' q)) = mset [0..<length (siblings t' q)]" for q
    proof (cases "q = p")
      case True
      have "siblings t' p = siblings t p @ [new_child t p m sfen]"
        by (simp add: siblings_def n)
      moreover have "mset (map order_index (siblings t p)) = mset [0..<length (siblings t p)]"
        using assms(1) by (simp only: well_formed_def gapless_siblings)
      ultimately show ?thesis using True by simp
    next
      case False
      then have "siblings t' q = siblings t q" by (simp add: siblings_def n)
      moreover have "mset (map order_index (siblings t q)) = mset [0..<length (siblings t q)]"
        using assms(1) by (simp only: well_formed_def gapless_siblings)
      ultimately show ?thesis by simp
    qed
    from d g show ?thesis by (simp only: well_formed_def gapless_siblings simp_thms)
  qed
qed

lemma well_formed_reorder:
  assumes "well_formed t" and "reorder_children t p ids = Inr t'"
  shows "well_formed t'"
proof -
  let ?f = "\<lambda>n. if parent_id n = Some p then n\<lparr>order_index := index_of (node_id n) ids\<rparr> else n"
  from assms(2) have perm: "mset ids = mset (map node_id (children_of t p))"
    and n: "nodes t' = map ?f (nodes t)"
    by (auto simp: reorder_children_def split: if_splits)
  have e: "map node_id (map ?f ns) = map node_id ns" for ns by (induction ns) auto
  have d: "distinct (map node_id (nodes t'))"
    unfolding n e using assms(1) by (simp only: well_formed_def)
  have fm: "filter (\<lambda>n. parent_id n = Some q) (map ?f ns) = map ?f (filter (\<lambda>n. parent_id n = Some q) ns)" for q ns
    by (induction ns) auto
  have sib: "siblings t' q = map ?f (siblings t q)" for q
    unfolding siblings_def n by (rule fm)
  have g: "mset (map order_index (siblings t' q)) = mset [0..<length (siblings t' q)]" for q
  proof (cases "q = p")
    case False
    have "map ?f (siblings t q) = siblings t q"
      using False by (auto simp: siblings_def intro: map_idI)
    moreover have "mset (map order_index (siblings t q)) = mset [0..<length (siblings t q)]"
      using assms(1) by (simp only: well_formed_def gapless_siblings)
    ultimately show ?thesis using sib[of q] by simp
  next
    case True
    have dk: "distinct (map node_id (siblings t p))"
      using assms(1) by (simp add: well_formed_def siblings_def distinct_map_filter)
    have pm: "mset ids = mset (map node_id (siblings t p))"
      using perm by (simp add: children_of_def)
    have A: "map order_index (map ?f (siblings t p)) = map (\<lambda>x. index_of x ids) (map node_id (siblings t p))"
      by (auto simp: siblings_def)
    have B: "mset (map (\<lambda>x. index_of x ids) (map node_id (siblings t p))) = mset [0..<length (siblings t p)]"
      using index_of_permutation[OF dk pm] by simp
    have L: "length (siblings t' p) = length (siblings t p)" by (simp add: sib)
    show ?thesis unfolding True L unfolding sib A by (rule B)
  qed
  from d g show ?thesis by (simp only: well_formed_def gapless_siblings simp_thms)
qed

lemma well_formed_apply_op: "well_formed t \<Longrightarrow> well_formed (apply_op am t op)"
  by (cases op) (auto split: sum.splits dest: well_formed_play_move well_formed_reorder)

lemma well_formed_foldl: "well_formed t \<Longrightarrow> well_formed (foldl (apply_op am) t ops)"
  by (induction ops arbitrary: t) (auto simp: well_formed_apply_op)

text \<open>
  Claim C4. Sibling order has no gaps: starting from a well-formed tree, after any finite
  sequence of \<^verbatim>\<open>play_move\<close> and \<^verbatim>\<open>reorder_children\<close> operations, for every node \<open>n\<close> the
  multiset of \<^verbatim>\<open>order_index\<close> over its \<open>k\<close> children is exactly \<open>{0, ..., k-1}\<close>.
\<close>

theorem sibling_order_gapless:
  assumes "well_formed t"
  shows "mset (map order_index (children_of (foldl (apply_op apply_move) t ops) n)) =
         mset [0..<length (children_of (foldl (apply_op apply_move) t ops) n)]"
  using well_formed_foldl[OF assms, of apply_move ops] by (simp only: well_formed_def gapless_def)



lemma well_formed_root_only: "well_formed root_only"
  by (simp add: well_formed_def gapless_siblings siblings_def root_only_def)

theorem sibling_order_gapless_witness:
  "map (\<lambda>n. (node_id n, order_index n)) (children_of (foldl (apply_op append_move) root_only sample_ops) 0)
     = [(2, 0), (1, 1)] \<and>
   mset (map order_index (children_of (foldl (apply_op append_move) root_only sample_ops) 0)) = mset [0..<2]"
proof -
  have a: "map (\<lambda>n. (node_id n, order_index n)) (children_of (foldl (apply_op append_move) root_only sample_ops) 0)
     = [(2, 0), (1, 1)]"
    by code_simp
  have l: "length (children_of (foldl (apply_op append_move) root_only sample_ops) 0) = 2"
    by code_simp
  from sibling_order_gapless [OF well_formed_root_only, of append_move sample_ops 0] a
  show ?thesis unfolding l by blast
qed

subsection \<open>Emission cadence\<close>

lemma interval_cadence: "l + flush_interval e \<le> e \<Longrightarrow> cadence_ok l e"
  by (auto simp: flush_interval_def cadence_ok_def split: if_splits)

lemma coord_inv_step: "coord_inv c \<Longrightarrow> coord_inv (coord_step c ev)"
proof (cases ev)
  case (Info e)
  assume "coord_inv c"
  with Info show ?thesis by (simp add: coord_inv_def)
next
  case (Tick e)
  assume inv: "coord_inv c"
  show ?thesis
  proof (cases "emitted c = []")
    case True
    with inv Tick show ?thesis by (simp add: coord_inv_def)
  next
    case False
    with inv have lf: "last_flush c = Some (last (emitted c))" by (simp add: coord_inv_def)
    from inv have s: "successively cadence_ok (emitted c)" by (simp add: coord_inv_def)
    show ?thesis using Tick False lf s interval_cadence[of "last (emitted c)" e]
      by (simp add: coord_inv_def successively_append_iff)
  qed
qed

lemma coord_inv_foldl: "coord_inv c \<Longrightarrow> coord_inv (foldl coord_step c evs)"
  by (induction evs arbitrary: c) (simp_all add: coord_inv_step)

lemma coord_inv_run: "coord_inv (coord_run evs)"
  unfolding coord_run_def by (rule coord_inv_foldl) (simp add: coord_inv_def search_start_def)

lemma coord_run_snoc: "coord_run (evs @ [ev]) = coord_step (coord_run evs) ev"
  by (simp add: coord_run_def)

lemma dirty_since_info:
  "dirty (coord_run evs) \<Longrightarrow>
     \<exists>pre x post. evs = pre @ Info x # post \<and> emitted (coord_run evs) = emitted (coord_run pre)"
proof (induction evs rule: rev_induct)
  case Nil
  then show ?case by (simp add: coord_run_def search_start_def)
next
  case (snoc ev evs)
  show ?case
  proof (cases ev)
    case (Info x)
    have "evs @ [ev] = evs @ Info x # []" using Info by simp
    moreover have "emitted (coord_run (evs @ [ev])) = emitted (coord_run evs)"
      using Info by (simp add: coord_run_snoc)
    ultimately show ?thesis by blast
  next
    case (Tick e)
    from snoc.prems Tick have same: "coord_run (evs @ [ev]) = coord_run evs"
      by (simp add: coord_run_snoc split: if_splits)
    with snoc.prems have "dirty (coord_run evs)" by simp
    from snoc.IH[OF this] obtain pre x post where
      "evs = pre @ Info x # post" "emitted (coord_run evs) = emitted (coord_run pre)" by blast
    then have "evs @ [ev] = pre @ Info x # (post @ [ev])"
      and "emitted (coord_run (evs @ [ev])) = emitted (coord_run pre)"
      using same by simp_all
    then show ?thesis by blast
  qed
qed

text \<open>
  Claim C6. For every search, any two consecutive \<^verbatim>\<open>analysis:update\<close> emissions are at
  least 500 ms apart, and at least 1000 ms apart once the later one falls at or after
  5000 ms; and an emission happens only when a raw \<^verbatim>\<open>info\<close> update has arrived since the
  previous emission: some earlier update has nothing emitted after it.
\<close>

theorem emission_cadence:
  "successively cadence_ok (emitted (coord_run evs)) \<and>
   (emitted (coord_run (evs @ [ev])) \<noteq> emitted (coord_run evs) \<longrightarrow>
      (\<exists>pre x post. evs = pre @ Info x # post \<and> emitted (coord_run evs) = emitted (coord_run pre)))"
proof
  show "successively cadence_ok (emitted (coord_run evs))"
    using coord_inv_run[of evs] by (simp add: coord_inv_def)
  show "emitted (coord_run (evs @ [ev])) \<noteq> emitted (coord_run evs) \<longrightarrow>
      (\<exists>pre x post. evs = pre @ Info x # post \<and> emitted (coord_run evs) = emitted (coord_run pre))"
  proof
    assume "emitted (coord_run (evs @ [ev])) \<noteq> emitted (coord_run evs)"
    then have "dirty (coord_run evs)"
      by (cases ev) (auto simp: coord_run_snoc split: if_splits)
    then show "\<exists>pre x post. evs = pre @ Info x # post \<and> emitted (coord_run evs) = emitted (coord_run pre)"
      by (rule dirty_since_info)
  qed
qed

theorem emission_cadence_witness:
  "emitted (coord_run sample_search) = [0, 500, 5000, 6000] \<and>
   successively cadence_ok [0, 500, 5000, 6000] \<and>
   (\<exists>pre x post. [Info 0] = pre @ Info x # post \<and> emitted (coord_run [Info 0]) = emitted (coord_run pre))"
proof -
  have a: "emitted (coord_run sample_search) = [0, 500, 5000, 6000]"
    by code_simp
  have b: "emitted (coord_run ([Info 0] @ [Tick 0])) \<noteq> emitted (coord_run [Info 0])"
    by code_simp
  from emission_cadence [of sample_search] emission_cadence [of "[Info 0]" "Tick 0"] a b
  show ?thesis by simp
qed

end
